theory Spec2Isabelle
  imports Complex_Main
begin

section \<open>Data model of the Data Navigator page\<close>

text \<open>
  The page works on pandas data frames that enter through \<^verbatim>\<open>pd.read_csv\<close> and
  \<^verbatim>\<open>pd.read_excel\<close>. A frame is an index (the row labels) and an ordered list of
  named, typed columns. The column types are the ones the readers infer: \<^verbatim>\<open>object\<close>
  (text, possibly missing), \<^verbatim>\<open>int64\<close> (never missing), \<^verbatim>\<open>float64\<close> (possibly
  missing) and \<^verbatim>\<open>bool\<close>. A missing cell (NaN) is \<open>None\<close>.

  The cells of a \<^verbatim>\<open>float64\<close> column are real numbers, and arithmetic on them (the
  median of two cells) is exact. The cells of an \<^verbatim>\<open>int64\<close> column are integers;
  the conversion of an integer to \<^verbatim>\<open>float64\<close> rounds it to 53 significant bits and
  the conversion back to \<^verbatim>\<open>int64\<close> leaves the 64-bit range as numpy does, both
  written out where the code converts. Column names and text cells are ASCII strings.
\<close>

datatype column =
    ObjCol "string option list"
  | IntCol "int list"
  | FloatCol "real option list"
  | BoolCol "bool list"

datatype label = LStr string | LInt int | LFloat real | LBool bool | LNaN

record frame =
  index :: "label list"
  columns :: "(string \<times> column) list"

datatype py_error = IndexError | KeyError | ValueError | AttributeError | TypeError

fun dtype :: "column \<Rightarrow> string" where
  "dtype (ObjCol _) = ''object''"
| "dtype (IntCol _) = ''int64''"
| "dtype (FloatCol _) = ''float64''"
| "dtype (BoolCol _) = ''bool''"

definition column_names :: "frame \<Rightarrow> string list" where
  "column_names df = map fst (columns df)"

definition dtypes :: "frame \<Rightarrow> string list" where
  "dtypes df = map (\<lambda>(n, c). dtype c) (columns df)"

section \<open>Schema validation: \<^verbatim>\<open>validate_data_structure\<close>\<close>

text \<open>
  \<^verbatim>\<open>dtype_mapping.get(str(x), x)\<close> yields one of the two Python strings of the table,
  or the dtype object itself when its name is not a key. A string never equals a dtype
  object, hence the two constructors.
\<close>

datatype std_dtype = Mapped string | Native string

definition dtype_mapping :: "(string \<times> string) list" where
  "dtype_mapping =
     [(''object'', ''Categorical''),
      (''category'', ''Categorical''),
      (''int64'', ''Numerical''),
      (''float64'', ''Numerical'')]"

definition standardize_dtype :: "string \<Rightarrow> std_dtype" where
  "standardize_dtype x =
     (case map_of dtype_mapping x of Some l \<Rightarrow> Mapped l | None \<Rightarrow> Native x)"

definition standardize_dtypes :: "frame \<Rightarrow> std_dtype list" where
  "standardize_dtypes df = map standardize_dtype (dtypes df)"

text \<open>
  The call's state: the two frames it is handed and what it has written to the page
  with \<^verbatim>\<open>st.write\<close> (each entry is the list of dtype names printed).
\<close>

record vstate =
  uploaded_df :: frame
  template_df :: frame
  st_written :: "string list list"

definition validate_data_structure :: "vstate \<Rightarrow> bool \<times> vstate" where
  "validate_data_structure s =
     (if column_names (uploaded_df s) \<noteq> column_names (template_df s) then (False, s)
      else if standardize_dtypes (uploaded_df s) \<noteq> standardize_dtypes (template_df s)
        then (False, s\<lparr>st_written := st_written s @ [dtypes (uploaded_df s)]\<rparr>)
      else (True, s))"

text \<open>The type classes as the specification words them.\<close>

datatype col_class = Categorical | Numerical | Unmapped string

definition spec_class :: "string \<Rightarrow> col_class" where
  "spec_class x =
     (if x = ''object'' \<or> x = ''category'' then Categorical
      else if x = ''int64'' \<or> x = ''float64'' then Numerical
      else Unmapped x)"

section \<open>Column name normalisation\<close>

text \<open>
  \<^verbatim>\<open>[col.capitalize() if col[0].islower() else col for col in df.columns]\<close>.
  Python's \<^verbatim>\<open>str.capitalize\<close> upper-cases the first character and lower-cases all
  the others; \<^verbatim>\<open>col[0]\<close> raises \<^verbatim>\<open>IndexError\<close> on the empty name.
\<close>

definition islower :: "char \<Rightarrow> bool" where
  "islower c = (let n = (of_char c :: nat) in 97 \<le> n \<and> n \<le> 122)"

definition isupper :: "char \<Rightarrow> bool" where
  "isupper c = (let n = (of_char c :: nat) in 65 \<le> n \<and> n \<le> 90)"

definition upper_char :: "char \<Rightarrow> char" where
  "upper_char c = (if islower c then char_of ((of_char c :: nat) - 32) else c)"

definition lower_char :: "char \<Rightarrow> char" where
  "lower_char c = (if isupper c then char_of ((of_char c :: nat) + 32) else c)"

fun capitalize :: "string \<Rightarrow> string" where
  "capitalize [] = []"
| "capitalize (c # cs) = upper_char c # map lower_char cs"

fun normalize_name :: "string \<Rightarrow> py_error + string" where
  "normalize_name [] = Inl IndexError"
| "normalize_name (c # cs) = Inr (if islower c then capitalize (c # cs) else c # cs)"

fun normalize_names :: "string list \<Rightarrow> py_error + string list" where
  "normalize_names [] = Inr []"
| "normalize_names (n # ns) =
     (case normalize_name n of
        Inl e \<Rightarrow> Inl e
      | Inr n' \<Rightarrow> (case normalize_names ns of Inl e \<Rightarrow> Inl e | Inr ns' \<Rightarrow> Inr (n' # ns')))"

section \<open>Table store: \<^verbatim>\<open>save_uploaded_file_as_sqlite\<close>\<close>

subsection \<open>Table numbering\<close>

text \<open>
  \<^verbatim>\<open>table.split(sep)[1]\<close> of a table name that starts with \<^verbatim>\<open>sep\<close> is the text
  between that first occurrence of \<^verbatim>\<open>sep\<close> and the next one (or the end).
  \<^verbatim>\<open>int\<close> is modelled on strings of ASCII digits, the only suffixes this function
  writes; on any other string (the empty one included) it raises \<^verbatim>\<open>ValueError\<close>.
  The numbering runs before the \<^verbatim>\<open>try\<close> block, so such an error is not caught.
\<close>

definition startswith :: "string \<Rightarrow> string \<Rightarrow> bool" where
  "startswith s p = (take (length p) s = p)"

fun until_sep :: "string \<Rightarrow> string \<Rightarrow> string" where
  "until_sep sep [] = []"
| "until_sep sep (c # cs) = (if startswith (c # cs) sep then [] else c # until_sep sep cs)"

definition split_second :: "string \<Rightarrow> string \<Rightarrow> string" where
  "split_second s sep = until_sep sep (drop (length sep) s)"

definition is_digit :: "char \<Rightarrow> bool" where
  "is_digit c = (let n = (of_char c :: nat) in 48 \<le> n \<and> n \<le> 57)"

definition digit_val :: "char \<Rightarrow> nat" where
  "digit_val c = (of_char c :: nat) - 48"

definition digits_value :: "string \<Rightarrow> nat" where
  "digits_value s = foldl (\<lambda>a c. 10 * a + digit_val c) 0 s"

definition py_int :: "string \<Rightarrow> py_error + nat" where
  "py_int s =
     (if s \<noteq> [] \<and> list_all is_digit s then Inr (digits_value s) else Inl ValueError)"

definition digit_char :: "nat \<Rightarrow> char" where
  "digit_char d = char_of (48 + d)"

fun py_str :: "nat \<Rightarrow> string" where
  "py_str n = (if n < 10 then [digit_char n] else py_str (n div 10) @ [digit_char (n mod 10)])"

definition zfill :: "string \<Rightarrow> nat \<Rightarrow> string" where
  "zfill s w = replicate (w - length s) (CHR ''0'') @ s"

fun py_ints :: "string list \<Rightarrow> py_error + nat list" where
  "py_ints [] = Inr []"
| "py_ints (s # ss) =
     (case py_int s of
        Inl e \<Rightarrow> Inl e
      | Inr n \<Rightarrow> (case py_ints ss of Inl e \<Rightarrow> Inl e | Inr ns \<Rightarrow> Inr (n # ns)))"

fun py_max :: "nat list \<Rightarrow> nat" where
  "py_max [] = 0"
| "py_max (x # xs) = fold max xs x"

definition next_table_name :: "string \<Rightarrow> string list \<Rightarrow> py_error + string" where
  "next_table_name username existing_tables =
     (let pre = username @ ''_table'';
          user_tables = filter (\<lambda>t. startswith t pre) existing_tables
      in if user_tables \<noteq> []
         then (case py_ints (map (\<lambda>t. split_second t pre) user_tables) of
                 Inl e \<Rightarrow> Inl e
               | Inr nums \<Rightarrow>
                   (let next_table_num = py_max nums + 1;
                        pad_length = length (py_str next_table_num)
                    in Inr (pre @ zfill (py_str next_table_num) pad_length)))
         else (let next_table_num = 1;
                   pad_length = length (py_str next_table_num)
               in Inr (pre @ zfill (py_str next_table_num) pad_length)))"

text \<open>A table name whose text after the prefix is a non-empty string of digits.\<close>

definition digit_suffix :: "string \<Rightarrow> string \<Rightarrow> bool" where
  "digit_suffix pre t = (drop (length pre) t \<noteq> [] \<and> list_all is_digit (drop (length pre) t))"

subsection \<open>Saving\<close>

text \<open>
  The user's store is the directory and database file (created on every call by
  \<^verbatim>\<open>os.makedirs\<close> and \<^verbatim>\<open>sqlite3.connect\<close>) and the tables of the database, in
  the order of \<^verbatim>\<open>sqlite_master\<close>. Reading the upload and writing the table are the
  work of pandas: the result of the read and whether the write succeeds are inputs.
  The function returns its triple (\<open>None\<close> for \<^verbatim>\<open>None, None, None\<close>), the store
  and the texts handed to \<^verbatim>\<open>st.error\<close>; an exception that leaves the function is
  \<open>Inl\<close>. Runs of blanks inside the messages are written as one blank.
\<close>

record store =
  namespace_exists :: bool
  tables :: "(string \<times> frame) list"

definition df_empty :: "frame \<Rightarrow> bool" where
  "df_empty df = (index df = [] \<or> columns df = [])"

definition empty_file_message :: string where
  "empty_file_message =
     ''The uploaded file is empty or improperly formatted. Please upload a valid file.''"

definition structure_message :: string where
  "structure_message =
     ''The structure of the uploaded file does not align with the expected template. '' @
     ''Please review the column descriptions provided below to ensure that the column '' @
     ''names and data types conform to the required specifications.''"

definition unexpected_message :: string where
  "unexpected_message = ''An unexpected error occurred''"

definition os_path_join :: "string \<Rightarrow> string \<Rightarrow> string" where
  "os_path_join a b =
     (if b \<noteq> [] \<and> hd b = CHR ''/'' then b
      else if a = [] \<or> last a = CHR ''/'' then a @ b
      else a @ ''/'' @ b)"

definition to_sql :: "string \<Rightarrow> frame \<Rightarrow> (string \<times> frame) list \<Rightarrow> (string \<times> frame) list" where
  "to_sql table_name df tabs = filter (\<lambda>(n, f). n \<noteq> table_name) tabs @ [(table_name, df)]"

definition save_uploaded_file_as_sqlite ::
  "(py_error + frame) \<Rightarrow> bool \<Rightarrow> string \<Rightarrow> frame \<Rightarrow> store
     \<Rightarrow> py_error + ((frame \<times> string \<times> string) option \<times> store \<times> string list)" where
  "save_uploaded_file_as_sqlite read_result write_ok username initial_df st =
     (let save_dir = ''./data/'' @ username;
          st1 = st\<lparr>namespace_exists := True\<rparr>;
          db_path = os_path_join save_dir (username @ ''.db'')
      in case next_table_name username (map fst (tables st1)) of
           Inl e \<Rightarrow> Inl e
         | Inr table_name \<Rightarrow>
             (case read_result of
                Inl e \<Rightarrow> Inr (None, st1, [unexpected_message])
              | Inr df \<Rightarrow>
                  if df_empty df then Inr (None, st1, [empty_file_message])
                  else if \<not> fst (validate_data_structure
                                   \<lparr>uploaded_df = df, template_df = initial_df, st_written = []\<rparr>)
                    then Inr (None, st1, [structure_message])
                  else if write_ok
                    then Inr (Some (df, table_name, db_path),
                              st1\<lparr>tables := to_sql table_name df (tables st1)\<rparr>, [])
                  else Inr (None, st1, [unexpected_message])))"

definition contains :: "string \<Rightarrow> string \<Rightarrow> bool" where
  "contains s sub = list_ex (\<lambda>k. startswith (drop k s) sub) [0..<Suc (length s)]"

definition mentions_column_descriptions :: "string \<Rightarrow> bool" where
  "mentions_column_descriptions msg = contains msg ''column descriptions''"

section \<open>Cleaning\<close>

text \<open>
  The cleaning pipeline of the page (identifier promotion to the cast back to
  \<^verbatim>\<open>int64\<close>), one definition per statement of the source, in the source's order.
  In a frame every column has as many cells as the index has labels, so a frame with no
  rows is a frame whose columns are all empty. The in-place \<^verbatim>\<open>replace\<close> calls on
  \<^verbatim>\<open>df[column]\<close> are taken to reach the frame, as the page relies on.
\<close>

fun present :: "'a option list \<Rightarrow> 'a list" where
  "present [] = []"
| "present (None # xs) = present xs"
| "present (Some x # xs) = x # present xs"

subsection \<open>\<^verbatim>\<open>df.set_index('user_id', inplace=True)\<close>\<close>

fun labels_of :: "column \<Rightarrow> label list" where
  "labels_of (ObjCol xs) = map (\<lambda>x. case x of None \<Rightarrow> LNaN | Some s \<Rightarrow> LStr s) xs"
| "labels_of (IntCol xs) = map LInt xs"
| "labels_of (FloatCol xs) = map (\<lambda>x. case x of None \<Rightarrow> LNaN | Some v \<Rightarrow> LFloat v) xs"
| "labels_of (BoolCol xs) = map LBool xs"

definition set_index :: "frame \<Rightarrow> frame" where
  "set_index df =
     (case map_of (columns df) ''user_id'' of
        None \<Rightarrow> df
      | Some c \<Rightarrow>
          \<lparr>index = labels_of c,
           columns = filter (\<lambda>(n, c). n \<noteq> ''user_id'') (columns df)\<rparr>)"

subsection \<open>Capitalising the column names\<close>

definition capitalize_columns :: "frame \<Rightarrow> py_error + frame" where
  "capitalize_columns df =
     (case normalize_names (column_names df) of
        Inl e \<Rightarrow> Inl e
      | Inr ns \<Rightarrow> Inr (df\<lparr>columns := zip ns (map snd (columns df))\<rparr>))"

subsection \<open>\<^verbatim>\<open>'Unknown'\<close> for missing text outside the target\<close>

text \<open>
  \<^verbatim>\<open>df[column]\<close> is a frame, not a series, when the name occurs twice (two names can
  meet after capitalisation), and a frame has no \<^verbatim>\<open>dtype\<close>: \<^verbatim>\<open>AttributeError\<close>.
\<close>

fun fill_unknown_col :: "column \<Rightarrow> column" where
  "fill_unknown_col (ObjCol xs) =
     ObjCol (map (\<lambda>x. case x of None \<Rightarrow> Some ''Unknown'' | Some s \<Rightarrow> Some s) xs)"
| "fill_unknown_col c = c"

definition fill_unknown :: "frame \<Rightarrow> py_error + frame" where
  "fill_unknown df =
     (if list_ex (\<lambda>n. n \<noteq> ''CHURN'' \<and> 1 < count_list (column_names df) n) (column_names df)
      then Inl AttributeError
      else Inr (df\<lparr>columns :=
                  map (\<lambda>(n, c). (n, if n \<noteq> ''CHURN'' then fill_unknown_col c else c))
                    (columns df)\<rparr>))"

subsection \<open>The target column: \<^verbatim>\<open>'Unknown'\<close> back to missing, then the mode\<close>

text \<open>
  \<^verbatim>\<open>SimpleImputer(strategy='most_frequent')\<close> fills the missing cells with the most
  frequent present value, the smallest one when several are as frequent. It raises
  \<^verbatim>\<open>ValueError\<close> on no rows and on a \<^verbatim>\<open>bool\<close> column; a column with no present
  value is dropped from its result, and assigning that result back raises
  \<^verbatim>\<open>ValueError\<close>. Strings are ordered as Python orders them.
\<close>

fun str_le :: "string \<Rightarrow> string \<Rightarrow> bool" where
  "str_le [] _ = True"
| "str_le (a # as) [] = False"
| "str_le (a # as) (b # bs) =
     ((of_char a :: nat) < of_char b \<or> (a = b \<and> str_le as bs))"

definition most_frequent :: "('a \<Rightarrow> 'a \<Rightarrow> bool) \<Rightarrow> 'a list \<Rightarrow> 'a option" where
  "most_frequent le xs =
     (case filter (\<lambda>x. count_list xs x = py_max (map (count_list xs) xs)) xs of
        [] \<Rightarrow> None
      | c # cs \<Rightarrow> Some (fold (\<lambda>a b. if le a b then a else b) cs c))"

definition fill_with :: "'a \<Rightarrow> 'a option list \<Rightarrow> 'a option list" where
  "fill_with m xs = map (\<lambda>x. case x of None \<Rightarrow> Some m | Some v \<Rightarrow> Some v) xs"

fun revert_unknown :: "column \<Rightarrow> column" where
  "revert_unknown (ObjCol xs) = ObjCol (map (\<lambda>x. if x = Some ''Unknown'' then None else x) xs)"
| "revert_unknown c = c"

fun impute_most_frequent :: "column \<Rightarrow> py_error + column" where
  "impute_most_frequent (ObjCol xs) =
     (case most_frequent str_le (present xs) of
        None \<Rightarrow> Inl ValueError
      | Some m \<Rightarrow> Inr (ObjCol (fill_with m xs)))"
| "impute_most_frequent (FloatCol xs) =
     (case most_frequent (\<le>) (present xs) of
        None \<Rightarrow> Inl ValueError
      | Some m \<Rightarrow> Inr (FloatCol (fill_with m xs)))"
| "impute_most_frequent (IntCol xs) = (if xs = [] then Inl ValueError else Inr (IntCol xs))"
| "impute_most_frequent (BoolCol xs) = Inl ValueError"

definition churn_imputer :: "frame \<Rightarrow> py_error + frame" where
  "churn_imputer df =
     (case filter (\<lambda>(n, c). n = ''CHURN'') (columns df) of
        [] \<Rightarrow> Inl KeyError
      | [(n, c)] \<Rightarrow>
          (case impute_most_frequent (revert_unknown c) of
             Inl e \<Rightarrow> Inl e
           | Inr c' \<Rightarrow>
               Inr (df\<lparr>columns :=
                      map (\<lambda>(n, c0). (n, if n = ''CHURN'' then c' else c0)) (columns df)\<rparr>))
      | _ \<Rightarrow> Inl ValueError)"

subsection \<open>\<^verbatim>\<open>df.apply(pd.to_numeric, errors='ignore')\<close>\<close>

text \<open>
  How pandas reads one text cell as a number is a parameter: \<open>parse\<close> answers with an
  integer, a float, NaN, or \<open>None\<close> when the text is no number. A missing cell reads
  as NaN. A text column whose cells all read becomes \<^verbatim>\<open>int64\<close> when all are integers
  and \<^verbatim>\<open>float64\<close> otherwise; any other column is returned as it is.
\<close>

datatype pnum = PInt int | PFloat real | PNaN

fun parse_cell :: "(string \<Rightarrow> pnum option) \<Rightarrow> string option \<Rightarrow> pnum option" where
  "parse_cell parse None = Some PNaN"
| "parse_cell parse (Some s) = parse s"

fun is_pint :: "pnum option \<Rightarrow> bool" where
  "is_pint (Some (PInt i)) = True"
| "is_pint _ = False"

fun pnum_int :: "pnum option \<Rightarrow> int" where
  "pnum_int (Some (PInt i)) = i"
| "pnum_int _ = 0"

fun pnum_float :: "pnum option \<Rightarrow> real option" where
  "pnum_float (Some (PInt i)) = Some (of_int i)"
| "pnum_float (Some (PFloat v)) = Some v"
| "pnum_float _ = None"

fun to_numeric :: "(string \<Rightarrow> pnum option) \<Rightarrow> column \<Rightarrow> column" where
  "to_numeric parse (ObjCol xs) =
     (if list_all (\<lambda>x. parse_cell parse x \<noteq> None) xs
      then (if list_all (\<lambda>x. is_pint (parse_cell parse x)) xs
            then IntCol (map (\<lambda>x. pnum_int (parse_cell parse x)) xs)
            else FloatCol (map (\<lambda>x. pnum_float (parse_cell parse x)) xs))
      else ObjCol xs)"
| "to_numeric parse c = c"

definition apply_to_numeric :: "(string \<Rightarrow> pnum option) \<Rightarrow> frame \<Rightarrow> frame" where
  "apply_to_numeric parse df =
     df\<lparr>columns := map (\<lambda>(n, c). (n, to_numeric parse c)) (columns df)\<rparr>"

subsection \<open>Median imputation of the numerical columns and the cast back to \<^verbatim>\<open>int64\<close>\<close>

text \<open>
  \<^verbatim>\<open>SimpleImputer(strategy='median')\<close> works on floats and returns floats. It raises
  \<^verbatim>\<open>ValueError\<close> when handed no column or no row; a column with no present value is
  dropped from its result, and assigning that result back raises \<^verbatim>\<open>ValueError\<close>.
  \<^verbatim>\<open>astype('int64')\<close> truncates towards zero and raises \<^verbatim>\<open>ValueError\<close> on NaN.

  An integer becomes the nearest \<^verbatim>\<open>float64\<close>: its magnitude keeps its 53 leading
  bits, rounded to nearest with ties to even (\<open>shift_of\<close> is the number of low bits
  dropped), so every integer below \<open>2 ^ 53\<close> in magnitude is kept and larger ones may
  change. A float whose truncation is outside \<open>- 2 ^ 63 \<dots> 2 ^ 63 - 1\<close> becomes
  \<open>- 2 ^ 63\<close> under \<^verbatim>\<open>astype('int64')\<close>, as numpy returns on x86-64.
\<close>

function shift_of :: "int \<Rightarrow> nat" where
  "shift_of a = (if a < 2 ^ 53 then 0 else Suc (shift_of (a div 2)))"
  by pat_completeness auto
termination
  by (relation "measure nat") auto

declare shift_of.simps [simp del]

definition round_magnitude :: "int \<Rightarrow> int" where
  "round_magnitude a =
     (let k = shift_of a; q = a div 2 ^ k; r = a mod 2 ^ k
      in if 2 ^ k < 2 * r \<or> (2 * r = 2 ^ k \<and> odd q) then (q + 1) * 2 ^ k else q * 2 ^ k)"

definition float64_of_int :: "int \<Rightarrow> int" where
  "float64_of_int i = sgn i * round_magnitude \<bar>i\<bar>"

definition to_int64 :: "int \<Rightarrow> int" where
  "to_int64 t = (if - (2 ^ 63) \<le> t \<and> t < 2 ^ 63 then t else - (2 ^ 63))"

definition int64_round_trip :: "int \<Rightarrow> int" where
  "int64_round_trip i = to_int64 (float64_of_int i)"

definition is_numerical :: "column \<Rightarrow> bool" where
  "is_numerical c = (dtype c = ''float64'' \<or> dtype c = ''int64'')"

fun as_float :: "column \<Rightarrow> real option list" where
  "as_float (IntCol xs) = map (\<lambda>i. Some (of_int (float64_of_int i))) xs"
| "as_float (FloatCol xs) = xs"
| "as_float (ObjCol xs) = []"
| "as_float (BoolCol xs) = []"

definition median :: "real list \<Rightarrow> real" where
  "median xs =
     (let s = sort xs; n = length s
      in if odd n then s ! (n div 2) else (s ! (n div 2 - 1) + s ! (n div 2)) / 2)"

definition numerical_imputer :: "frame \<Rightarrow> py_error + frame" where
  "numerical_imputer df =
     (let numerical_columns = filter (\<lambda>(n, c). is_numerical c) (columns df)
      in if numerical_columns = [] then Inl ValueError
         else if list_ex (\<lambda>(n, c). present (as_float c) = []) numerical_columns
           then Inl ValueError
         else Inr (df\<lparr>columns :=
                     map (\<lambda>(n, c). (n, if is_numerical c
                                        then FloatCol (fill_with (median (present (as_float c)))
                                                         (as_float c))
                                        else c))
                       (columns df)\<rparr>))"

definition trunc :: "real \<Rightarrow> int" where
  "trunc v = (if 0 \<le> v then \<lfloor>v\<rfloor> else \<lceil>v\<rceil>)"

fun astype_int64 :: "column \<Rightarrow> column" where
  "astype_int64 (FloatCol xs) =
     IntCol (map (\<lambda>x. case x of None \<Rightarrow> 0 | Some v \<Rightarrow> to_int64 (trunc v)) xs)"
| "astype_int64 (BoolCol xs) = IntCol (map (\<lambda>b. if b then 1 else 0) xs)"
| "astype_int64 c = c"

fun has_nan :: "column \<Rightarrow> bool" where
  "has_nan (FloatCol xs) = list_ex (\<lambda>x. x = None) xs"
| "has_nan c = False"

definition cast_back :: "string list \<Rightarrow> frame \<Rightarrow> py_error + frame" where
  "cast_back int64_columns df =
     (if list_ex (\<lambda>(n, c). n \<in> set int64_columns \<and> has_nan c) (columns df)
      then Inl ValueError
      else Inr (df\<lparr>columns :=
                  map (\<lambda>(n, c). (n, if n \<in> set int64_columns then astype_int64 c else c))
                    (columns df)\<rparr>))"

definition int64_names :: "frame \<Rightarrow> string list" where
  "int64_names df = map fst (filter (\<lambda>(n, c). dtype c = ''int64'') (columns df))"

definition impute_numerical :: "frame \<Rightarrow> py_error + frame" where
  "impute_numerical df =
     (let int64_columns = int64_names df
      in case numerical_imputer df of
           Inl e \<Rightarrow> Inl e
         | Inr df' \<Rightarrow> cast_back int64_columns df')"

subsection \<open>The whole pipeline\<close>

definition clean :: "(string \<Rightarrow> pnum option) \<Rightarrow> frame \<Rightarrow> py_error + frame" where
  "clean parse df =
     (case capitalize_columns (set_index df) of
        Inl e \<Rightarrow> Inl e
      | Inr df1 \<Rightarrow>
          (case fill_unknown df1 of
             Inl e \<Rightarrow> Inl e
           | Inr df2 \<Rightarrow>
               (case churn_imputer df2 of
                  Inl e \<Rightarrow> Inl e
                | Inr df3 \<Rightarrow> impute_numerical (apply_to_numeric parse df3))))"

text \<open>A reader of plain decimal integers, for running the pipeline on examples.\<close>

definition parse_decimal :: "string \<Rightarrow> pnum option" where
  "parse_decimal s = (case py_int s of Inl e \<Rightarrow> None | Inr n \<Rightarrow> Some (PInt (int n)))"

text \<open>
  What the specification asks of the numerical step, column by column: a float column
  has its missing cells filled with the median of its present cells; an integer column
  is an integer column again, each cell having gone to \<^verbatim>\<open>float64\<close> and back; every
  other column is as before.
\<close>

fun median_filled :: "column \<Rightarrow> column" where
  "median_filled (FloatCol xs) = FloatCol (fill_with (median (present xs)) xs)"
| "median_filled (IntCol xs) = IntCol (map int64_round_trip xs)"
| "median_filled c = c"

subsection \<open>Frames the pipeline leaves alone\<close>

text \<open>
  Predicates for the proofs: a column with nothing left to impute in the target step
  (\<open>settled\<close>), a column none of the column-wise steps changes (\<open>stable_col\<close>), and
  a frame on which every step of the pipeline succeeds and changes nothing
  (\<open>cleaned\<close>).
\<close>

fun settled :: "column \<Rightarrow> bool" where
  "settled (ObjCol xs) = (xs \<noteq> [] \<and> None \<notin> set xs \<and> Some ''Unknown'' \<notin> set xs)"
| "settled (FloatCol xs) = (xs \<noteq> [] \<and> None \<notin> set xs)"
| "settled (IntCol xs) = (xs \<noteq> [])"
| "settled (BoolCol xs) = False"

definition stable_col :: "(string \<Rightarrow> pnum option) \<Rightarrow> column \<Rightarrow> bool" where
  "stable_col parse c =
     (fill_unknown_col c = c \<and> to_numeric parse c = c \<and> median_filled c = c \<and>
      (is_numerical c \<longrightarrow> present (as_float c) \<noteq> []))"

definition cleaned :: "(string \<Rightarrow> pnum option) \<Rightarrow> frame \<Rightarrow> bool" where
  "cleaned parse df =
     ((\<forall>n\<in>set (column_names df). n \<noteq> [] \<and> \<not> islower (hd n)) \<and>
      distinct (column_names df) \<and>
      (\<forall>(n, c)\<in>set (columns df). stable_col parse c) \<and>
      (\<exists>c. filter (\<lambda>(n, c). n = ''CHURN'') (columns df) = [(''CHURN'', c)] \<and> settled c) \<and>
      (\<exists>(n, c)\<in>set (columns df). is_numerical c))"

section \<open>Filtering\<close>

text \<open>
  \<^verbatim>\<open>df[mask]\<close> keeps the rows whose mask entry is true: the labels of the index and
  the cells of every column at those positions. A comparison of a column with a value
  is a mask, cell by cell; a missing cell never satisfies a comparison, and comparing
  text with a number by \<^verbatim>\<open>>=\<close> raises \<^verbatim>\<open>TypeError\<close>. \<^verbatim>\<open>df[name]\<close> with a name
  that no column has raises \<^verbatim>\<open>KeyError\<close>; the column names are taken to be distinct,
  as they are in every cleaned frame.
\<close>

definition keep :: "bool list \<Rightarrow> 'a list \<Rightarrow> 'a list" where
  "keep m xs = map snd (filter fst (zip m xs))"

fun select_col :: "bool list \<Rightarrow> column \<Rightarrow> column" where
  "select_col m (ObjCol xs) = ObjCol (keep m xs)"
| "select_col m (IntCol xs) = IntCol (keep m xs)"
| "select_col m (FloatCol xs) = FloatCol (keep m xs)"
| "select_col m (BoolCol xs) = BoolCol (keep m xs)"

definition select_rows :: "bool list \<Rightarrow> frame \<Rightarrow> frame" where
  "select_rows m df =
     \<lparr>index = keep m (index df),
      columns = map (\<lambda>(n, c). (n, select_col m c)) (columns df)\<rparr>"

fun eq_value :: "column \<Rightarrow> string \<Rightarrow> bool list" where
  "eq_value (ObjCol xs) v = map (\<lambda>x. x = Some v) xs"
| "eq_value (IntCol xs) v = map (\<lambda>x. False) xs"
| "eq_value (FloatCol xs) v = map (\<lambda>x. False) xs"
| "eq_value (BoolCol xs) v = map (\<lambda>x. False) xs"

definition index_eq :: "frame \<Rightarrow> label \<Rightarrow> bool list" where
  "index_eq df i = map (\<lambda>l. l = i) (index df)"

definition mask_and :: "bool list \<Rightarrow> bool list \<Rightarrow> bool list" where
  "mask_and a b = map (\<lambda>(x, y). x \<and> y) (zip a b)"

fun in_range :: "column \<Rightarrow> real \<Rightarrow> real \<Rightarrow> py_error + bool list" where
  "in_range (IntCol xs) lo hi = Inr (map (\<lambda>i. lo \<le> of_int i \<and> of_int i \<le> hi) xs)"
| "in_range (FloatCol xs) lo hi =
     Inr (map (\<lambda>x. case x of None \<Rightarrow> False | Some v \<Rightarrow> lo \<le> v \<and> v \<le> hi) xs)"
| "in_range (BoolCol xs) lo hi =
     Inr (map (\<lambda>b. lo \<le> (if b then 1 else 0) \<and> (if b then 1 else 0) \<le> hi) xs)"
| "in_range (ObjCol xs) lo hi = Inl TypeError"

text \<open>
  \<^verbatim>\<open>slider_values\<close> has one entry per numerical column of the frame, in the order of
  the columns; \<open>slider\<close> is the pair of bounds the user has set on the slider of that
  column. The empty string stands for no selected value and for no selected user.
\<close>

definition slider_values :: "frame \<Rightarrow> (string \<Rightarrow> real \<times> real) \<Rightarrow> (string \<times> real \<times> real) list" where
  "slider_values df slider =
     map (\<lambda>(n, c). (n, slider n)) (filter (\<lambda>(n, c). is_numerical c) (columns df))"

fun apply_sliders :: "(string \<times> real \<times> real) list \<Rightarrow> frame \<Rightarrow> py_error + frame" where
  "apply_sliders [] filtered = Inr filtered"
| "apply_sliders ((column, min_val, max_val) # rest) filtered =
     (case map_of (columns filtered) column of
        None \<Rightarrow> Inl KeyError
      | Some c \<Rightarrow>
          (case in_range c min_val max_val of
             Inl e \<Rightarrow> Inl e
           | Inr m \<Rightarrow> apply_sliders rest (select_rows m filtered)))"

definition first_layer :: "frame \<Rightarrow> string \<Rightarrow> string \<Rightarrow> label \<Rightarrow> py_error + frame" where
  "first_layer df selected_column selected_value selected_customer_id =
     (if selected_value = '''' \<and> selected_customer_id = LStr '''' then Inr df
      else if selected_value \<noteq> '''' \<and> selected_customer_id = LStr '''' then
        (case map_of (columns df) selected_column of
           None \<Rightarrow> Inl KeyError
         | Some c \<Rightarrow> Inr (select_rows (eq_value c selected_value) df))
      else if selected_value = '''' \<and> selected_customer_id \<noteq> LStr '''' then
        Inr (select_rows (index_eq df selected_customer_id) df)
      else
        (case map_of (columns df) selected_column of
           None \<Rightarrow> Inl KeyError
         | Some c \<Rightarrow>
             Inr (select_rows (mask_and (eq_value c selected_value)
                                        (index_eq df selected_customer_id)) df)))"

definition filtered_data ::
  "frame \<Rightarrow> string \<Rightarrow> string \<Rightarrow> label \<Rightarrow> (string \<Rightarrow> real \<times> real) \<Rightarrow> py_error + frame" where
  "filtered_data df selected_column selected_value selected_customer_id slider =
     (case first_layer df selected_column selected_value selected_customer_id of
        Inl e \<Rightarrow> Inl e
      | Inr filtered \<Rightarrow> apply_sliders (slider_values df slider) filtered)"

subsection \<open>The clauses one at a time, in any order\<close>

text \<open>
  The three kinds of clause of a filter, each applied to a frame as the page applies
  it, and a list of clauses applied from left to right.
\<close>

datatype clause = CatEq string string | IdEq label | InRange string real real

fun clause_mask :: "frame \<Rightarrow> clause \<Rightarrow> py_error + bool list" where
  "clause_mask df (CatEq column v) =
     (case map_of (columns df) column of
        None \<Rightarrow> Inl KeyError
      | Some c \<Rightarrow> Inr (eq_value c v))"
| "clause_mask df (IdEq i) = Inr (index_eq df i)"
| "clause_mask df (InRange column lo hi) =
     (case map_of (columns df) column of
        None \<Rightarrow> Inl KeyError
      | Some c \<Rightarrow> in_range c lo hi)"

definition apply_clause :: "clause \<Rightarrow> frame \<Rightarrow> py_error + frame" where
  "apply_clause cl df =
     (case clause_mask df cl of Inl e \<Rightarrow> Inl e | Inr m \<Rightarrow> Inr (select_rows m df))"

fun apply_clauses :: "clause list \<Rightarrow> frame \<Rightarrow> py_error + frame" where
  "apply_clauses [] df = Inr df"
| "apply_clauses (cl # cls) df =
     (case apply_clause cl df of Inl e \<Rightarrow> Inl e | Inr df' \<Rightarrow> apply_clauses cls df')"

definition present_clauses ::
  "frame \<Rightarrow> string \<Rightarrow> string \<Rightarrow> label \<Rightarrow> (string \<Rightarrow> real \<times> real) \<Rightarrow> clause list" where
  "present_clauses df selected_column selected_value selected_customer_id slider =
     (if selected_value \<noteq> '''' then [CatEq selected_column selected_value] else []) @
     (if selected_customer_id \<noteq> LStr '''' then [IdEq selected_customer_id] else []) @
     map (\<lambda>(n, lo, hi). InRange n lo hi) (slider_values df slider)"

text \<open>
  Row \<open>i\<close> of a frame satisfies a clause; the rows of a frame that satisfy every clause
  of a list; a frame whose columns all have as many cells as the index has labels.
\<close>

definition the_mask :: "frame \<Rightarrow> clause \<Rightarrow> bool list" where
  "the_mask df cl = (case clause_mask df cl of Inl e \<Rightarrow> [] | Inr m \<Rightarrow> m)"

definition satisfies :: "frame \<Rightarrow> nat \<Rightarrow> clause \<Rightarrow> bool" where
  "satisfies df i cl = (case clause_mask df cl of Inl e \<Rightarrow> False | Inr m \<Rightarrow> m ! i)"

definition conjunction_mask :: "frame \<Rightarrow> clause list \<Rightarrow> bool list" where
  "conjunction_mask df cls = map (\<lambda>i. list_all (satisfies df i) cls) [0..<length (index df)]"

fun col_length :: "column \<Rightarrow> nat" where
  "col_length (ObjCol xs) = length xs"
| "col_length (IntCol xs) = length xs"
| "col_length (FloatCol xs) = length xs"
| "col_length (BoolCol xs) = length xs"

definition wf_frame :: "frame \<Rightarrow> bool" where
  "wf_frame df =
     (distinct (column_names df) \<and>
      list_all (\<lambda>(n, c). col_length c = length (index df)) (columns df))"

section \<open>Summaries\<close>

text \<open>
  \<^verbatim>\<open>describe()\<close> of the numerical columns: the count of present cells and, over them,
  mean, sample standard deviation, minimum, quartiles by linear interpolation and
  maximum; with no present cell the count is 0 and every other entry is NaN
  (\<open>None\<close>), and the standard deviation of a single cell is NaN.
\<close>

record num_summary =
  n_count :: nat
  n_mean :: "real option"
  n_std :: "real option"
  n_min :: "real option"
  n_q25 :: "real option"
  n_q50 :: "real option"
  n_q75 :: "real option"
  n_max :: "real option"

definition mean :: "real list \<Rightarrow> real" where
  "mean xs = sum_list xs / real (length xs)"

definition std :: "real list \<Rightarrow> real option" where
  "std xs =
     (if length xs < 2 then None
      else Some (sqrt (sum_list (map (\<lambda>x. (x - mean xs)\<^sup>2) xs) / real (length xs - 1))))"

definition quantile :: "real \<Rightarrow> real list \<Rightarrow> real" where
  "quantile q xs =
     (let s = sort xs; pos = q * real (length s - 1); lo = nat \<lfloor>pos\<rfloor>
      in if Suc lo < length s then s ! lo + (pos - real lo) * (s ! Suc lo - s ! lo)
         else s ! lo)"

definition describe_numeric :: "real option list \<Rightarrow> num_summary" where
  "describe_numeric xs =
     (let ps = present xs
      in if ps = []
         then \<lparr>n_count = 0, n_mean = None, n_std = None, n_min = None, n_q25 = None,
               n_q50 = None, n_q75 = None, n_max = None\<rparr>
         else \<lparr>n_count = length ps, n_mean = Some (mean ps), n_std = std ps,
               n_min = Some (Min (set ps)), n_q25 = Some (quantile (1 / 4) ps),
               n_q50 = Some (quantile (1 / 2) ps), n_q75 = Some (quantile (3 / 4) ps),
               n_max = Some (Max (set ps))\<rparr>)"

definition numeric_summary :: "frame \<Rightarrow> (string \<times> num_summary) list" where
  "numeric_summary df =
     map (\<lambda>(n, c). (n, describe_numeric (as_float c)))
       (filter (\<lambda>(n, c). is_numerical c) (columns df))"

text \<open>
  The summary of the text columns. \<^verbatim>\<open>describe()\<close> of a frame without columns raises
  \<^verbatim>\<open>ValueError\<close>. \<^verbatim>\<open>mode()\<close> returns a frame with one row per mode, the smallest
  mode of every column in row 0 and NaN where a column has fewer modes than another;
  that frame has no row when no column has a present cell, and then
  \<^verbatim>\<open>.iloc[0]\<close> raises \<^verbatim>\<open>IndexError\<close>. The entries \<^verbatim>\<open>unique\<close>, \<^verbatim>\<open>top\<close> and
  \<^verbatim>\<open>freq\<close> are the ones the page computes itself.
\<close>

record cat_summary =
  c_count :: nat
  c_unique :: nat
  c_top :: "string option"
  c_freq :: "nat option"

fun object_cells :: "(string \<times> column) list \<Rightarrow> (string \<times> string option list) list" where
  "object_cells [] = []"
| "object_cells ((n, ObjCol xs) # cs) = (n, xs) # object_cells cs"
| "object_cells ((n, c) # cs) = object_cells cs"

definition describe_object :: "string option list \<Rightarrow> cat_summary" where
  "describe_object xs =
     (let ps = present xs
      in \<lparr>c_count = length ps,
          c_unique = length (remdups ps),
          c_top = most_frequent str_le ps,
          c_freq = (if ps = [] then None else Some (py_max (map (count_list ps) ps)))\<rparr>)"

definition categorical_summary :: "frame \<Rightarrow> py_error + (string \<times> cat_summary) list" where
  "categorical_summary df =
     (let obj = object_cells (columns df)
      in if obj = [] then Inl ValueError
         else if list_all (\<lambda>(n, xs). present xs = []) obj then Inl IndexError
         else Inr (map (\<lambda>(n, xs). (n, describe_object xs)) obj))"

definition summarize ::
  "frame \<Rightarrow> py_error + ((string \<times> num_summary) list \<times> (string \<times> cat_summary) list)" where
  "summarize df =
     (let numeric_summary_df = numeric_summary df
      in case categorical_summary df of
           Inl e \<Rightarrow> Inl e
         | Inr cs \<Rightarrow> Inr (numeric_summary_df, cs))"

text \<open>
  Under the filtered view the page shows the summaries only when no user is selected;
  \<open>None\<close> is no summary shown.
\<close>

definition filtered_summary ::
  "label \<Rightarrow> frame
     \<Rightarrow> (py_error + ((string \<times> num_summary) list \<times> (string \<times> cat_summary) list)) option" where
  "filtered_summary selected_customer_id filtered =
     (if selected_customer_id = LStr '''' then Some (summarize filtered) else None)"

section \<open>Example frames\<close>

definition cap_template :: frame where
  "cap_template =
     \<lparr>index = [LInt 0, LInt 1],
      columns = [(''REGION'', ObjCol [Some ''DAKAR'', None]),
                 (''MONTANT'', FloatCol [Some 10, Some 30]),
                 (''CHURN'', IntCol [0, 1])]\<rparr>"

definition no_target_frame :: frame where
  "no_target_frame =
     \<lparr>index = [LInt 0, LInt 1],
      columns = [(''user_id'', ObjCol [Some ''a'', Some ''b'']),
                 (''REGION'', ObjCol [Some ''DAKAR'', None]),
                 (''MONTANT'', FloatCol [Some 10, Some 30])]\<rparr>"


definition churn_float_frame :: frame where
  "churn_float_frame =
     \<lparr>index = [LInt 0, LInt 1, LInt 2, LInt 3],
      columns = [(''MONTANT'', FloatCol [Some 10, None, Some 30, Some 5]),
                 (''CHURN'', FloatCol [Some 1, None, Some 1, Some 0])]\<rparr>"

definition churn_int_frame :: frame where
  "churn_int_frame =
     \<lparr>index = [LInt 0, LInt 1, LInt 2],
      columns = [(''MONTANT'', FloatCol [Some 10, None, Some 30]),
                 (''CHURN'', IntCol [0, 1, 1])]\<rparr>"

definition churn_frame :: frame where
  "churn_frame =
     \<lparr>index = [LInt 0, LInt 1, LInt 2],
      columns = [(''MONTANT'', FloatCol [Some 10, None, Some 30]),
                 (''CHURN'', ObjCol [Some ''Yes'', None, Some ''Yes''])]\<rparr>"

definition raw_frame :: frame where
  "raw_frame =
     \<lparr>index = [LInt 0, LInt 1, LInt 2],
      columns = [(''user_id'', ObjCol [Some ''a'', Some ''b'', Some ''c'']),
                 (''region'', ObjCol [Some ''DAKAR'', None, Some ''THIES'']),
                 (''MONTANT'', FloatCol [Some 10, None, Some 30]),
                 (''TENURE'', ObjCol [Some ''1'', Some ''2'', Some ''3'']),
                 (''REGULARITY'', IntCol [7, 62, 3]),
                 (''CHURN'', ObjCol [Some ''Yes'', None, Some ''Yes''])]\<rparr>"

definition raw_frame_cleaned :: frame where
  "raw_frame_cleaned =
     \<lparr>index = [LStr ''a'', LStr ''b'', LStr ''c''],
      columns = [(''Region'', ObjCol [Some ''DAKAR'', Some ''Unknown'', Some ''THIES'']),
                 (''MONTANT'', FloatCol [Some 10, Some 20, Some 30]),
                 (''TENURE'', IntCol [1, 2, 3]),
                 (''REGULARITY'', IntCol [7, 62, 3]),
                 (''CHURN'', ObjCol [Some ''Yes'', Some ''Yes'', Some ''Yes''])]\<rparr>"

definition example_slider :: "string \<Rightarrow> real \<times> real" where
  "example_slider n = (if n = ''MONTANT'' then (15, 30) else (0, 100))"

section \<open>Properties of the schema validation\<close>

lemma standardize_eq_iff_spec_class:
  "standardize_dtype x = standardize_dtype y \<longleftrightarrow> spec_class x = spec_class y"
  by (simp add: standardize_dtype_def spec_class_def dtype_mapping_def)

lemma map_standardize_eq_iff:
  "map standardize_dtype xs = map standardize_dtype ys
     \<longleftrightarrow> map spec_class xs = map spec_class ys"
proof (induction xs arbitrary: ys)
  case Nil
  then show ?case by simp
next
  case (Cons x xs)
  show ?case
  proof (cases ys)
    case Nil
    then show ?thesis by simp
  next
    case (Cons y ys')
    with Cons.IH [of ys'] show ?thesis
      by (simp add: standardize_eq_iff_spec_class)
  qed
qed

text \<open>
  C1. \<^verbatim>\<open>validate_data_structure\<close> answers true exactly when the uploaded frame has the
  template's column names, in the same order, and the same per-column sequence of type
  classes (object and category are Categorical, int64 and float64 are Numerical, any
  other dtype name is a class of its own); the uploaded frame and the template are the
  same after the call as before. The mapping agrees with the classes on every dtype name.
\<close>

theorem validate_data_structure_iff:
  "(fst (validate_data_structure s) \<longleftrightarrow>
      column_names (uploaded_df s) = column_names (template_df s) \<and>
      map spec_class (dtypes (uploaded_df s)) = map spec_class (dtypes (template_df s)))
   \<and> uploaded_df (snd (validate_data_structure s)) = uploaded_df s
   \<and> template_df (snd (validate_data_structure s)) = template_df s
   \<and> (standardize_dtype x = standardize_dtype y \<longleftrightarrow> spec_class x = spec_class y)"
  by (simp add: validate_data_structure_def standardize_dtypes_def map_standardize_eq_iff
      standardize_eq_iff_spec_class)

section \<open>Properties of the name normalisation\<close>

lemma normalize_name_not_lower:
  "\<not> islower c \<Longrightarrow> normalize_name (c # cs) = Inr (c # cs)"
  by simp

lemma normalize_name_lower:
  "islower c \<Longrightarrow> normalize_name (c # cs) = Inr (upper_char c # map lower_char cs)"
  by simp

text \<open>
  C3. The claim is that a name starting with a lowercase letter only has its first
  character capitalised. The code calls \<^verbatim>\<open>str.capitalize\<close>, which also lower-cases
  every other character: the column name \<^verbatim>\<open>topPack\<close> becomes \<^verbatim>\<open>Toppack\<close>, not
  \<^verbatim>\<open>TopPack\<close>.
\<close>

theorem normalize_name_lowercases_rest:
  "normalize_name ''topPack'' = Inr ''Toppack'' \<and> ''Toppack'' \<noteq> ''TopPack''"
  by code_simp

section \<open>Properties of the table numbering\<close>

declare py_str.simps [simp del]

lemma digit_char_is_digit: "d < 10 \<Longrightarrow> is_digit (digit_char d)"
  by (simp add: is_digit_def digit_char_def)
lemma digit_val_digit_char: "d < 10 \<Longrightarrow> digit_val (digit_char d) = d"
  by (simp add: digit_val_def digit_char_def)

lemma py_str_digits: "list_all is_digit (py_str n)"
  by (induction n rule: py_str.induct) (subst py_str.simps, simp add: digit_char_is_digit)
lemma py_str_nonempty: "py_str n \<noteq> []"
  by (subst py_str.simps) simp
lemma py_str_value: "digits_value (py_str n) = n"
  unfolding digits_value_def
  by (induction n rule: py_str.induct) (subst py_str.simps, simp add: digit_val_digit_char)
lemma py_int_py_str: "py_int (py_str n) = Inr n"
  by (simp add: py_int_def py_str_digits py_str_nonempty py_str_value)

lemma zfill_own_length: "zfill s (length s) = s"
  by (simp add: zfill_def)

lemma until_sep_no_sep:
  "c \<in> set sep \<Longrightarrow> c \<notin> set s \<Longrightarrow> until_sep sep s = s"
proof (induction s)
  case Nil then show ?case by simp
next
  case (Cons a s)
  have "\<not> startswith (a # s) sep"
  proof
    assume "startswith (a # s) sep"
    then have "set sep \<subseteq> set (a # s)" unfolding startswith_def by (metis set_take_subset)
    with Cons.prems show False by auto
  qed
  with Cons show ?case by simp
qed

lemma underscore_not_digit: "is_digit c \<Longrightarrow> c \<noteq> CHR ''_''"
  by (auto simp: is_digit_def)

lemma py_max_Max: "xs \<noteq> [] \<Longrightarrow> py_max xs = Max (set xs)"
proof (cases xs)
  case Nil
  then show "xs \<noteq> [] \<Longrightarrow> py_max xs = Max (set xs)" by simp
next
  case (Cons a as)
  then show ?thesis using Max.set_eq_fold [of a as] by simp
qed

lemma split_second_digit_suffix:
  assumes "digit_suffix (username @ ''_table'') t"
  shows "split_second t (username @ ''_table'') = drop (length (username @ ''_table'')) t"
proof -
  have "CHR ''_'' \<notin> set (drop (length (username @ ''_table'')) t)"
    using assms underscore_not_digit unfolding digit_suffix_def list_all_iff by blast
  moreover have "CHR ''_'' \<in> set (username @ ''_table'')" by simp
  ultimately show ?thesis unfolding split_second_def by (rule until_sep_no_sep [rotated])
qed

lemma py_ints_digit_suffixes:
  assumes "\<forall>t\<in>set ts. digit_suffix (username @ ''_table'') t"
  shows "py_ints (map (\<lambda>t. split_second t (username @ ''_table'')) ts)
         = Inr (map (\<lambda>t. digits_value (drop (length (username @ ''_table'')) t)) ts)"
  using assms
proof (induction ts)
  case Nil
  then show ?case by simp
next
  case (Cons t ts)
  then have d: "digit_suffix (username @ ''_table'') t" by simp
  have "py_int (split_second t (username @ ''_table''))
        = Inr (digits_value (drop (length (username @ ''_table'')) t))"
    using d split_second_digit_suffix [OF d] by (simp add: py_int_def digit_suffix_def)
  with Cons show ?case by simp
qed

text \<open>
  C8. When every existing table that starts with \<^verbatim>\<open>{username}_table\<close> continues
  with a non-empty string of digits, the name computed for the next table is
  \<^verbatim>\<open>{username}_table\<close> followed by the plain decimal form (\<^verbatim>\<open>zfill\<close> to the
  number's own width adds nothing) of one plus the largest of those numbers, or of 1
  when the user has no table yet. With \<^verbatim>\<open>u_table1\<close> to \<^verbatim>\<open>u_table5\<close> present the
  next name is \<^verbatim>\<open>u_table6\<close>.
\<close>

theorem next_table_name_max_plus_one:
  assumes "\<forall>t\<in>set existing_tables.
             startswith t (username @ ''_table'') \<longrightarrow> digit_suffix (username @ ''_table'') t"
  shows "next_table_name username existing_tables =
         Inr (username @ ''_table'' @
              py_str (if filter (\<lambda>t. startswith t (username @ ''_table'')) existing_tables = []
                      then 1
                      else Max (set (map (\<lambda>t. digits_value (drop (length (username @ ''_table'')) t))
                                 (filter (\<lambda>t. startswith t (username @ ''_table'')) existing_tables))) + 1))"
proof -
  let ?pre = "username @ ''_table''"
  let ?uts = "filter (\<lambda>t. startswith t ?pre) existing_tables"
  show ?thesis
  proof (cases "?uts = []")
    case True
    then show ?thesis by (simp add: next_table_name_def zfill_own_length)
  next
    case False
    have "\<forall>t\<in>set ?uts. digit_suffix ?pre t" using assms by simp
    from py_ints_digit_suffixes [OF this]
    have "py_ints (map (\<lambda>t. split_second t ?pre) ?uts)
          = Inr (map (\<lambda>t. digits_value (drop (length ?pre) t)) ?uts)" .
    moreover have "py_max (map (\<lambda>t. digits_value (drop (length ?pre) t)) ?uts)
          = Max (set (map (\<lambda>t. digits_value (drop (length ?pre) t)) ?uts))"
      using False by (intro py_max_Max) simp
    ultimately show ?thesis using False
      by (simp add: next_table_name_def Let_def zfill_own_length)
  qed
qed

theorem next_table_name_max_plus_one_witness:
  "next_table_name ''u'' [''u_table1'', ''u_table2'', ''u_table3'', ''u_table4'', ''u_table5'']
     = Inr ''u_table6''"
proof -
  have h: "\<forall>t\<in>set [''u_table1'', ''u_table2'', ''u_table3'', ''u_table4'', ''u_table5''].
      startswith t (''u'' @ ''_table'') \<longrightarrow> digit_suffix (''u'' @ ''_table'') t"
    by code_simp
  show ?thesis
    by (subst next_table_name_max_plus_one [OF h]) code_simp
qed

section \<open>Properties of saving\<close>

lemma structure_message_mentions: "mentions_column_descriptions structure_message"
  by code_simp

text \<open>
  C9, as the code has it. When the table numbering succeeds and the upload reads as a
  frame that is empty, \<^verbatim>\<open>save_uploaded_file_as_sqlite\<close> returns no record and reports
  that the file is empty or improperly formatted; when the frame is not empty and fails
  the schema validation against the template it returns no record and reports a message
  that points at the column descriptions. In both cases the tables of the store are
  the ones it had, and the storage namespace exists afterwards.
\<close>

theorem save_rejects_without_writing:
  assumes "next_table_name username (map fst (tables st)) = Inr table_name"
    and "df_empty df \<or> \<not> fst (validate_data_structure
                                  \<lparr>uploaded_df = df, template_df = initial_df, st_written = []\<rparr>)"
  shows "\<exists>st' msg.
           save_uploaded_file_as_sqlite (Inr df) write_ok username initial_df st
             = Inr (None, st', [msg])
           \<and> tables st' = tables st \<and> namespace_exists st'
           \<and> msg = (if df_empty df then empty_file_message else structure_message)
           \<and> (\<not> df_empty df \<longrightarrow> mentions_column_descriptions msg)"
  using assms
  by (auto simp: save_uploaded_file_as_sqlite_def Let_def structure_message_mentions)

theorem save_rejects_without_writing_witness:
  "next_table_name ''u'' (map fst (tables \<lparr>namespace_exists = True, tables = [(''u_table1'', cap_template)]\<rparr>))
     = Inr ''u_table2''
   \<and> (\<exists>st' msg.
         save_uploaded_file_as_sqlite
           (Inr \<lparr>index = [LInt 0], columns = [(''REGION'', IntCol [3])]\<rparr>) True ''u'' cap_template
           \<lparr>namespace_exists = True, tables = [(''u_table1'', cap_template)]\<rparr>
           = Inr (None, st', [msg])
         \<and> tables st' = [(''u_table1'', cap_template)]
         \<and> mentions_column_descriptions msg)"
proof -
  let ?st = "\<lparr>namespace_exists = True, tables = [(''u_table1'', cap_template)]\<rparr>"
  let ?df = "\<lparr>index = [LInt 0], columns = [(''REGION'', IntCol [3])]\<rparr>"
  have n: "next_table_name ''u'' (map fst (tables ?st)) = Inr ''u_table2''"
    by code_simp
  have v: "df_empty ?df \<or> \<not> fst (validate_data_structure
             \<lparr>uploaded_df = ?df, template_df = cap_template, st_written = []\<rparr>)"
    by (simp add: validate_data_structure_def column_names_def cap_template_def)
  have e: "\<not> df_empty ?df" by (simp add: df_empty_def)
  from save_rejects_without_writing [OF n v, of True] e n show ?thesis
    by auto
qed

text \<open>
  Against C9 as stated: a frame with a header and no rows is rejected with a message
  that does not point at the column descriptions, and the call has created the storage
  namespace that did not exist before.
\<close>

theorem save_empty_message_counterexample:
  "save_uploaded_file_as_sqlite
     (Inr \<lparr>index = [], columns = [(''REGION'', ObjCol [])]\<rparr>) True ''u'' cap_template
     \<lparr>namespace_exists = False, tables = []\<rparr>
     = Inr (None, \<lparr>namespace_exists = True, tables = []\<rparr>, [empty_file_message])
   \<and> \<not> mentions_column_descriptions empty_file_message"
  by code_simp

section \<open>Properties of the cleaning steps\<close>

subsection \<open>The mode\<close>

lemma fold_pick_mem: "fold (\<lambda>a b. if le a b then a else b) cs c \<in> set (c # cs)"
  by (induction cs arbitrary: c) (auto split: if_splits)

lemma most_frequent_spec:
  assumes "xs \<noteq> []"
  shows "\<exists>m. most_frequent le xs = Some m \<and> m \<in> set xs \<and> (\<forall>v. count_list xs v \<le> count_list xs m)"
proof -
  let ?cnt = "map (count_list xs) xs"
  let ?M = "py_max ?cnt"
  have M: "?M = Max (set ?cnt)" using assms by (intro py_max_Max) simp
  have "Max (set ?cnt) \<in> set ?cnt" using assms by (intro Max_in) simp_all
  then obtain x where x: "x \<in> set xs" "count_list xs x = ?M" using M by auto
  have ub: "count_list xs v \<le> ?M" for v
  proof (cases "v \<in> set xs")
    case True
    then have "count_list xs v \<in> set ?cnt" by simp
    then show ?thesis unfolding M by (intro Max_ge) simp_all
  next
    case False
    then show ?thesis by (simp add: count_list_0_iff)
  qed
  from x have "filter (\<lambda>x. count_list xs x = ?M) xs \<noteq> []"
    by (auto simp: filter_empty_conv)
  then obtain c cs where f: "filter (\<lambda>x. count_list xs x = ?M) xs = c # cs"
    by (cases "filter (\<lambda>x. count_list xs x = ?M) xs") auto
  let ?m = "fold (\<lambda>a b. if le a b then a else b) cs c"
  have "?m \<in> set (filter (\<lambda>x. count_list xs x = ?M) xs)"
    unfolding f by (rule fold_pick_mem)
  then have "?m \<in> set xs" "count_list xs ?m = ?M" by auto
  moreover have "most_frequent le xs = Some ?m" by (simp add: most_frequent_def f)
  ultimately show ?thesis using ub by auto
qed

subsection \<open>Names\<close>

lemma churn_imputer_no_churn:
  "''CHURN'' \<notin> set (column_names df) \<Longrightarrow> churn_imputer df = Inl KeyError"
proof -
  assume "''CHURN'' \<notin> set (column_names df)"
  then have "filter (\<lambda>(n, c). n = ''CHURN'') (columns df) = []"
    by (force simp: column_names_def filter_empty_conv)
  then show ?thesis by (simp add: churn_imputer_def)
qed

lemma distinct_count_le_1: "distinct xs \<Longrightarrow> count_list xs x \<le> 1"
  by (induction xs) (auto simp: count_list_0_iff)

lemma count_le_1_distinct: "(\<And>x. x \<in> set xs \<Longrightarrow> count_list xs x \<le> 1) \<Longrightarrow> distinct xs"
proof (induction xs)
  case Nil
  then show ?case by simp
next
  case (Cons a xs)
  have "count_list (a # xs) a \<le> 1" by (rule Cons.prems) simp
  then have a: "a \<notin> set xs" by (simp add: count_list_0_iff [symmetric])
  have "count_list xs x \<le> 1" if "x \<in> set xs" for x
    using Cons.prems [of x] that by (simp split: if_splits)
  with Cons.IH a show ?case by simp
qed

lemma fill_unknown_names:
  "fill_unknown df = Inr df' \<Longrightarrow> column_names df' = column_names df"
  by (auto simp: fill_unknown_def column_names_def split: if_splits)

lemma fill_unknown_error:
  "fill_unknown df = Inl e \<Longrightarrow> e = AttributeError \<and> \<not> distinct (column_names df)"
proof -
  assume a: "fill_unknown df = Inl e"
  then have e: "e = AttributeError" by (auto simp: fill_unknown_def split: if_splits)
  from a obtain n where "n \<in> set (column_names df)" "1 < count_list (column_names df) n"
    by (auto simp: fill_unknown_def list_ex_iff split: if_splits)
  then have "\<not> distinct (column_names df)"
    using distinct_count_le_1 [of "column_names df" n] by auto
  with e show ?thesis by simp
qed

lemma upper_char_not_lower: "\<not> islower (upper_char c)"
proof (cases "islower c")
  case True
  then have r: "97 \<le> (of_char c :: nat)" "(of_char c :: nat) \<le> 122"
    by (simp_all add: islower_def Let_def)
  then have "(of_char (char_of ((of_char c :: nat) - 32)) :: nat) = of_char c - 32"
    by simp
  with True r show ?thesis by (simp add: upper_char_def islower_def Let_def)
next
  case False
  then show ?thesis by (simp add: upper_char_def)
qed

lemma normalize_name_Inr:
  "normalize_name n = Inr n' \<Longrightarrow> n' \<noteq> [] \<and> \<not> islower (hd n')"
  by (cases n) (auto simp: upper_char_not_lower split: if_splits)

lemma normalize_names_Inr:
  "normalize_names ns = Inr ns' \<Longrightarrow>
     length ns' = length ns \<and> (\<forall>n\<in>set ns'. n \<noteq> [] \<and> \<not> islower (hd n))"
proof (induction ns arbitrary: ns')
  case Nil
  then show ?case by simp
next
  case (Cons n ns)
  then show ?case
    by (auto split: sum.splits dest: normalize_name_Inr)
qed

lemma normalize_names_fixed:
  "\<forall>n\<in>set ns. n \<noteq> [] \<and> \<not> islower (hd n) \<Longrightarrow> normalize_names ns = Inr ns"
proof (induction ns)
  case Nil
  then show ?case by simp
next
  case (Cons n ns)
  then obtain c cs where "n = c # cs" "\<not> islower c" by (cases n) auto
  with Cons show ?case by simp
qed

lemma capitalize_columns_Inr:
  assumes "capitalize_columns df = Inr df1"
  shows "index df1 = index df" and "map snd (columns df1) = map snd (columns df)"
    and "normalize_names (column_names df) = Inr (column_names df1)"
proof -
  from assms obtain ns where ns: "normalize_names (column_names df) = Inr ns"
    and df1: "df1 = df\<lparr>columns := zip ns (map snd (columns df))\<rparr>"
    by (auto simp: capitalize_columns_def split: sum.splits)
  from normalize_names_Inr [OF ns] have len: "length ns = length (columns df)"
    by (simp add: column_names_def)
  show "index df1 = index df" by (simp add: df1)
  show "map snd (columns df1) = map snd (columns df)" using len by (simp add: df1)
  show "normalize_names (column_names df) = Inr (column_names df1)"
    using len ns by (simp add: df1 column_names_def)
qed

lemma set_index_no_user_id:
  "''user_id'' \<notin> set (column_names df) \<Longrightarrow> set_index df = df"
  by (simp add: set_index_def column_names_def map_of_eq_None_iff [THEN iffD2])

subsection \<open>Median imputation and the cast back\<close>

lemma shift_of_small: "a < 2 ^ 53 \<Longrightarrow> shift_of a = 0"
  by (subst shift_of.simps) simp

lemma shift_of_large: "\<not> a < 2 ^ 53 \<Longrightarrow> shift_of a = Suc (shift_of (a div 2))"
  by (subst shift_of.simps) simp

lemma shift_of_bounds:
  "shift_of a = k \<Longrightarrow> a div 2 ^ k < 2 ^ 53 \<and> (0 < k \<longrightarrow> 2 ^ 52 \<le> a div 2 ^ k)"
proof (induction a arbitrary: k rule: shift_of.induct)
  case (1 a)
  show ?case
  proof (cases "a < 2 ^ 53")
    case True
    with "1.prems" show ?thesis by (simp add: shift_of_small)
  next
    case False
    then obtain k' where k: "k = Suc k'" "shift_of (a div 2) = k'"
      using "1.prems" by (simp add: shift_of_large)
    from "1.IH" [OF False k(2)]
    have ih: "a div 2 div 2 ^ k' < 2 ^ 53" "0 < k' \<longrightarrow> 2 ^ 52 \<le> a div 2 div 2 ^ k'" by simp_all
    have d: "a div 2 ^ k = a div 2 div 2 ^ k'"
      by (simp add: k(1) zdiv_zmult2_eq)
    have "2 ^ 52 \<le> a div 2 ^ k"
    proof (cases "0 < k'")
      case True
      with ih(2) d show ?thesis by simp
    next
      case k0: False
      from False have "2 ^ 52 \<le> a div 2" by simp
      with k0 d show ?thesis by simp
    qed
    with ih(1) d show ?thesis by simp
  qed
qed

lemma shift_of_mult:
  "2 ^ 52 \<le> q \<Longrightarrow> q < 2 ^ 53 \<Longrightarrow> shift_of (q * 2 ^ k) = k"
proof (induction k)
  case 0
  then show ?case by (simp add: shift_of_small)
next
  case (Suc k)
  have "(2::int) ^ 52 * 2 ^ Suc k \<le> q * 2 ^ Suc k"
    using Suc.prems(1) by (intro mult_right_mono) simp_all
  moreover have "(2::int) ^ 53 \<le> 2 ^ 52 * 2 ^ Suc k"
    using one_le_power [of "2::int" k] by simp
  ultimately have "\<not> q * 2 ^ Suc k < 2 ^ 53" by linarith
  moreover have "q * 2 ^ Suc k div 2 = q * 2 ^ k" by simp
  ultimately show ?case using Suc by (simp add: shift_of_large)
qed

lemma round_magnitude_exact: "a < 2 ^ 53 \<Longrightarrow> round_magnitude a = a"
  by (simp add: round_magnitude_def shift_of_small)

lemma round_magnitude_mult:
  assumes "2 ^ 52 \<le> q" and "q < 2 ^ 53"
  shows "round_magnitude (q * 2 ^ k) = q * 2 ^ k"
  by (simp add: round_magnitude_def shift_of_mult [OF assms])

lemma round_magnitude_idem: "round_magnitude (round_magnitude a) = round_magnitude a"
proof (cases "a < 2 ^ 53")
  case True
  then show ?thesis by (simp add: round_magnitude_exact)
next
  case False
  define k where "k = shift_of a"
  define q where "q = a div 2 ^ k"
  from False have "k \<noteq> 0" unfolding k_def by (simp add: shift_of_large)
  with shift_of_bounds [of a k] have q: "2 ^ 52 \<le> q" "q < 2 ^ 53"
    by (simp_all add: k_def q_def)
  have "round_magnitude a = q * 2 ^ k \<or> round_magnitude a = (q + 1) * 2 ^ k"
    by (auto simp: round_magnitude_def Let_def k_def q_def)
  then show ?thesis
  proof
    assume "round_magnitude a = q * 2 ^ k"
    with round_magnitude_mult [OF q] show ?thesis by simp
  next
    assume r: "round_magnitude a = (q + 1) * 2 ^ k"
    show ?thesis
    proof (cases "q + 1 < 2 ^ 53")
      case True
      with q(1) have "round_magnitude ((q + 1) * 2 ^ k) = (q + 1) * 2 ^ k"
        by (intro round_magnitude_mult) simp_all
      with r show ?thesis by simp
    next
      case False
      with q(2) have "q + 1 = 2 ^ 53" by simp
      then have "(q + 1) * 2 ^ k = 2 ^ 52 * 2 ^ Suc k" by simp
      moreover have "round_magnitude (2 ^ 52 * 2 ^ Suc k) = 2 ^ 52 * 2 ^ Suc k"
        by (intro round_magnitude_mult) simp_all
      ultimately show ?thesis using r by simp
    qed
  qed
qed

lemma round_magnitude_nonneg: "0 \<le> a \<Longrightarrow> 0 \<le> round_magnitude a"
  by (simp add: round_magnitude_def Let_def pos_imp_zdiv_nonneg_iff)

lemma round_magnitude_zero: "round_magnitude 0 = 0"
  by (simp add: round_magnitude_exact)

lemma float64_of_int_idem: "float64_of_int (float64_of_int i) = float64_of_int i"
proof -
  let ?m = "round_magnitude \<bar>i\<bar>"
  have m: "0 \<le> ?m" by (rule round_magnitude_nonneg) simp
  show ?thesis
  proof (cases "i = 0 \<or> ?m = 0")
    case True
    then show ?thesis by (auto simp: float64_of_int_def round_magnitude_zero)
  next
    case False
    with m have "\<bar>sgn i * ?m\<bar> = ?m" "sgn (sgn i * ?m) = sgn i"
      by (simp_all add: abs_mult sgn_mult)
    then show ?thesis by (simp add: float64_of_int_def round_magnitude_idem)
  qed
qed


lemma float64_min_int64: "float64_of_int (- (2 ^ 63)) = - (2 ^ 63)"
proof -
  have "round_magnitude (2 ^ 52 * 2 ^ 11) = 2 ^ 52 * 2 ^ 11"
    by (intro round_magnitude_mult) simp_all
  then have "round_magnitude (2 ^ 63) = 2 ^ 63" by simp
  then show ?thesis by (simp add: float64_of_int_def)
qed

lemma int64_round_trip_min: "int64_round_trip (- (2 ^ 63)) = - (2 ^ 63)"
  unfolding int64_round_trip_def float64_min_int64 by (simp add: to_int64_def)

lemma int64_round_trip_idem: "int64_round_trip (int64_round_trip i) = int64_round_trip i"
proof (cases "- (2 ^ 63) \<le> float64_of_int i \<and> float64_of_int i < 2 ^ 63")
  case True
  then show ?thesis
    by (simp add: int64_round_trip_def to_int64_def float64_of_int_idem)
next
  case False
  then have "int64_round_trip i = - (2 ^ 63)"
    unfolding int64_round_trip_def to_int64_def by (simp only: if_False)
  then show ?thesis by (simp only: int64_round_trip_min)
qed


lemma trunc_of_int: "trunc (of_int i) = i"
  by (simp add: trunc_def)

lemma present_map_Some: "present (map (\<lambda>i. Some (f i)) xs) = map f xs"
  by (induction xs) simp_all

lemma present_fill_with: "present (fill_with m xs) = map (\<lambda>x. case x of None \<Rightarrow> m | Some v \<Rightarrow> v) xs"
  by (induction xs) (auto simp: fill_with_def split: option.splits)

lemma fill_with_no_None: "None \<notin> set (fill_with m xs)"
  by (auto simp: fill_with_def split: option.splits)

lemma fill_with_all_Some: "None \<notin> set xs \<Longrightarrow> fill_with m xs = xs"
proof -
  assume a: "None \<notin> set xs"
  have "(case x of None \<Rightarrow> Some m | Some v \<Rightarrow> Some v) = x" if "x \<in> set xs" for x
    by (cases x) (use that a in auto)
  then show ?thesis unfolding fill_with_def by (rule map_idI)
qed

lemma fill_with_of_int:
  "fill_with m (map (\<lambda>i. Some (f i)) xs) = map (\<lambda>i. Some (f i)) xs"
  by (simp add: fill_with_def)

lemma astype_filled_int:
  "astype_int64 (FloatCol (fill_with m (as_float (IntCol xs)))) = IntCol (map int64_round_trip xs)"
  by (simp add: fill_with_of_int o_def trunc_of_int int64_round_trip_def)

lemma key_determines_column:
  "distinct (map fst cs) \<Longrightarrow> (n, c) \<in> set cs \<Longrightarrow> (n, c') \<in> set cs \<Longrightarrow> c = c'"
  by (rule eq_key_imp_eq_value)

lemma int64_names_iff:
  assumes "distinct (column_names df)" and "(n, c) \<in> set (columns df)"
  shows "n \<in> set (int64_names df) \<longleftrightarrow> dtype c = ''int64''"
proof
  assume "n \<in> set (int64_names df)"
  then obtain c' where "(n, c') \<in> set (columns df)" "dtype c' = ''int64''"
    by (auto simp: int64_names_def)
  with assms key_determines_column [of "columns df" n c c'] show "dtype c = ''int64''"
    by (simp add: column_names_def)
next
  assume "dtype c = ''int64''"
  with assms(2) show "n \<in> set (int64_names df)"
    by (force simp: int64_names_def)
qed

lemma numerical_imputer_cases:
  "numerical_imputer df =
     (if filter (\<lambda>(n, c). is_numerical c) (columns df) = []
         \<or> list_ex (\<lambda>(n, c). present (as_float c) = [])
              (filter (\<lambda>(n, c). is_numerical c) (columns df))
      then Inl ValueError
      else Inr (df\<lparr>columns :=
                  map (\<lambda>(n, c). (n, if is_numerical c
                                     then FloatCol (fill_with (median (present (as_float c)))
                                                      (as_float c))
                                     else c))
                    (columns df)\<rparr>))"
  by (simp add: numerical_imputer_def Let_def)

lemma no_nan_after_imputer:
  "\<not> has_nan (if is_numerical c
               then FloatCol (fill_with m (as_float c)) else c)"
  using fill_with_no_None [of m "as_float c"]
  by (cases c) (auto simp: is_numerical_def list_ex_iff)

lemma cast_after_imputer:
  assumes "distinct (column_names df)" and "x \<in> set (columns df)"
  shows "(\<lambda>(n, c). (n, if n \<in> set (int64_names df) then astype_int64 c else c))
           ((\<lambda>(n, c). (n, if is_numerical c
                              then FloatCol (fill_with (median (present (as_float c)))
                                               (as_float c))
                              else c)) x)
         = (\<lambda>(n, c). (n, median_filled c)) x"
proof -
  obtain n c where x: "x = (n, c)" by (cases x)
  from int64_names_iff [OF assms(1), of n c] assms(2) x
  have "n \<in> set (int64_names df) \<longleftrightarrow> dtype c = ''int64''" by simp
  then show ?thesis unfolding x
    by (cases c)
       (simp_all add: is_numerical_def fill_with_of_int o_def trunc_of_int int64_round_trip_def)
qed

lemma impute_numerical_cases:
  assumes "distinct (column_names df)"
  shows "impute_numerical df =
     (if filter (\<lambda>(n, c). is_numerical c) (columns df) = []
         \<or> list_ex (\<lambda>(n, c). present (as_float c) = [])
              (filter (\<lambda>(n, c). is_numerical c) (columns df))
      then Inl ValueError
      else Inr (df\<lparr>columns := map (\<lambda>(n, c). (n, median_filled c)) (columns df)\<rparr>))"
proof -
  let ?F = "\<lambda>(n, c). (n, if is_numerical c
                              then FloatCol (fill_with (median (present (as_float c)))
                                               (as_float c))
                              else c)"
  let ?G = "\<lambda>(n, c). (n, if n \<in> set (int64_names df) then astype_int64 c else c)"
  let ?H = "\<lambda>(n, c). (n, median_filled c)"
  have "\<forall>x\<in>set (columns df). (?G \<circ> ?F) x = ?H x"
    by (intro ballI) (simp only: o_apply cast_after_imputer [OF assms])
  then have "map (?G \<circ> ?F) (columns df) = map ?H (columns df)"
    by (simp only: map_eq_conv)
  then have m: "map ?G (map ?F (columns df)) = map ?H (columns df)"
    by (simp only: map_map)
  have h: "\<not> list_ex (\<lambda>(n, c). n \<in> set (int64_names df) \<and> has_nan c)
             (map ?F (columns df))"
    using no_nan_after_imputer by (auto simp: list_ex_iff)
  show ?thesis
    unfolding impute_numerical_def Let_def numerical_imputer_cases
    using m h by (simp add: cast_back_def)
qed

lemma fill_with_revert:
  "fill_with m (map (\<lambda>x. if x = Some ''Unknown'' then None else x) xs)
   = map (\<lambda>x. if x = None \<or> x = Some ''Unknown'' then Some m else x) xs"
  by (auto simp: fill_with_def split: option.splits)

subsection \<open>Columns that the steps leave alone\<close>

lemma to_numeric_idem: "to_numeric parse (to_numeric parse c) = to_numeric parse c"
  by (cases c) simp_all

lemma fill_unknown_col_idem: "fill_unknown_col (fill_unknown_col c) = fill_unknown_col c"
  by (cases c) (simp_all add: o_def split: option.splits)

lemma present_nonempty_fill_with: "xs \<noteq> [] \<Longrightarrow> present (fill_with m xs) \<noteq> []"
  by (simp add: present_fill_with)

lemma fill_with_twice: "fill_with m' (fill_with m xs) = fill_with m xs"
  by (rule fill_with_all_Some) (rule fill_with_no_None)

lemma stable_col_after:
  assumes "fill_unknown_col c = c"
    and "is_numerical (to_numeric parse c) \<longrightarrow> present (as_float (to_numeric parse c)) \<noteq> []"
  shows "stable_col parse (median_filled (to_numeric parse c))"
proof -
  let ?d = "to_numeric parse c"
  have f: "fill_unknown_col ?d = ?d" using assms(1) by (cases c) (simp_all)
  have t: "to_numeric parse ?d = ?d" by (rule to_numeric_idem)
  show ?thesis
  proof (cases ?d)
    case (ObjCol xs)
    with f t show ?thesis by (simp add: stable_col_def is_numerical_def)
  next
    case (IntCol xs)
    with assms(2) have "xs \<noteq> []" by (auto simp: is_numerical_def)
    with IntCol show ?thesis
      by (simp add: stable_col_def is_numerical_def present_map_Some o_def int64_round_trip_idem)
  next
    case (FloatCol xs)
    with assms(2) have "xs \<noteq> []" by (auto simp: is_numerical_def)
    with FloatCol show ?thesis
      by (simp add: stable_col_def fill_with_twice present_nonempty_fill_with)
  next
    case (BoolCol xs)
    then show ?thesis by (simp add: stable_col_def is_numerical_def)
  qed
qed

lemma present_no_None: "None \<notin> set xs \<Longrightarrow> length (present xs) = length xs"
  by (induction xs rule: present.induct) auto

lemma present_nonempty: "None \<notin> set xs \<Longrightarrow> xs \<noteq> [] \<Longrightarrow> present xs \<noteq> []"
  using present_no_None [of xs] by auto

lemma settled_fixed: "settled c \<Longrightarrow> impute_most_frequent (revert_unknown c) = Inr c"
proof (cases c)
  case (ObjCol xs)
  assume s: "settled c"
  with ObjCol have r: "map (\<lambda>x. if x = Some ''Unknown'' then None else x) xs = xs"
    by (intro map_idI) auto
  from s ObjCol have "present xs \<noteq> []" by (simp add: present_nonempty)
  from most_frequent_spec [OF this, of str_le] obtain m where "most_frequent str_le (present xs) = Some m"
    by blast
  with s ObjCol r show ?thesis by (simp add: fill_with_all_Some)
next
  case (FloatCol xs)
  assume s: "settled c"
  with FloatCol have "present xs \<noteq> []" by (simp add: present_nonempty)
  from most_frequent_spec [OF this, of "(\<le>)"] obtain m where "most_frequent (\<le>) (present xs) = Some m"
    by blast
  with s FloatCol show ?thesis by (simp add: fill_with_all_Some)
qed simp_all

lemma present_mem: "v \<in> set (present xs) \<longleftrightarrow> Some v \<in> set xs"
  by (induction xs rule: present.induct) auto

lemma imputed_settled:
  assumes "impute_most_frequent (revert_unknown c) = Inr c'"
  shows "settled c'"
proof (cases c)
  case (ObjCol xs)
  let ?r = "map (\<lambda>x. if x = Some ''Unknown'' then None else x) xs"
  from assms ObjCol obtain m where m: "most_frequent str_le (present ?r) = Some m"
    and c': "c' = ObjCol (fill_with m ?r)"
    by (auto split: option.splits)
  have ne: "present ?r \<noteq> []" using m by (auto simp: most_frequent_def)
  from most_frequent_spec [OF ne, of str_le] m have "m \<in> set (present ?r)" by auto
  then have "Some m \<in> set ?r" by (simp only: present_mem)
  then have mu: "m \<noteq> ''Unknown''" by (auto split: if_splits)
  have "Some ''Unknown'' \<notin> set (fill_with m ?r)"
    using mu by (auto simp: fill_with_def split: option.splits if_splits)
  moreover have "fill_with m ?r \<noteq> []" using ne by (auto simp: fill_with_def)
  ultimately show ?thesis using fill_with_no_None [of m ?r] by (simp add: c')
next
  case (FloatCol xs)
  from assms FloatCol obtain m where m: "most_frequent (\<le>) (present xs) = Some m"
    and c': "c' = FloatCol (fill_with m xs)"
    by (auto split: option.splits)
  have "present xs \<noteq> []" using m by (auto simp: most_frequent_def)
  then have "fill_with m xs \<noteq> []" by (auto simp: fill_with_def)
  then show ?thesis using fill_with_no_None [of m xs] by (simp add: c')
next
  case (IntCol xs)
  with assms show ?thesis by (auto split: if_splits)
next
  case (BoolCol xs)
  with assms show ?thesis by simp
qed

lemma settled_after:
  assumes "settled c"
    and "is_numerical (to_numeric parse c) \<longrightarrow> present (as_float (to_numeric parse c)) \<noteq> []"
  shows "settled (median_filled (to_numeric parse c))"
proof (cases c)
  case (ObjCol xs)
  show ?thesis
  proof (cases "to_numeric parse c")
    case o: (ObjCol ys)
    with ObjCol have "ys = xs" by (simp split: if_splits)
    with o ObjCol assms(1) show ?thesis by simp
  next
    case (IntCol ys)
    with ObjCol assms(1) show ?thesis by (auto split: if_splits)
  next
    case (FloatCol ys)
    with assms(2) have "ys \<noteq> []" by (auto simp: is_numerical_def)
    then have "fill_with (median (present ys)) ys \<noteq> []" by (simp add: fill_with_def)
    with FloatCol show ?thesis using fill_with_no_None [of "median (present ys)" ys] by simp
  next
    case (BoolCol ys)
    with ObjCol show ?thesis by (simp split: if_splits)
  qed
next
  case (FloatCol xs)
  with assms(1) show ?thesis by (simp add: fill_with_all_Some)
qed (use assms(1) in simp_all)

subsection \<open>A successful run\<close>

lemma count_list_names:
  "count_list (map fst cs) k = length (filter (\<lambda>(n, c). n = k) cs)"
  by (induction cs) auto

lemma filter_key_map:
  "filter (\<lambda>(n, c). n = k) (map (\<lambda>(n, c). (n, f n c)) cs)
   = map (\<lambda>(n, c). (n, f n c)) (filter (\<lambda>(n, c). n = k) cs)"
  by (induction cs) auto

lemma names_map: "map fst (map (\<lambda>(n, c). (n, f n c)) cs) = map fst cs"
  by (induction cs) auto

lemma fill_unknown_Inr:
  assumes "fill_unknown df = Inr df2"
  shows "df2 = df\<lparr>columns := map (\<lambda>(n, c). (n, if n \<noteq> ''CHURN'' then fill_unknown_col c else c))
                               (columns df)\<rparr>"
    and "\<And>n. n \<in> set (column_names df) \<Longrightarrow> n \<noteq> ''CHURN'' \<Longrightarrow> count_list (column_names df) n \<le> 1"
proof -
  from assms have ne: "\<not> list_ex (\<lambda>n. n \<noteq> ''CHURN'' \<and> 1 < count_list (column_names df) n)
                          (column_names df)"
    by (auto simp: fill_unknown_def split: if_splits)
  with assms show "df2 = df\<lparr>columns := map (\<lambda>(n, c). (n, if n \<noteq> ''CHURN'' then fill_unknown_col c else c))
                               (columns df)\<rparr>"
    by (simp add: fill_unknown_def)
  fix n assume "n \<in> set (column_names df)" "n \<noteq> ''CHURN''"
  with ne show "count_list (column_names df) n \<le> 1"
    by (auto simp: list_ex_iff not_less)
qed

lemma churn_imputer_Inr:
  assumes "churn_imputer df = Inr df3"
  obtains c c' where "filter (\<lambda>(n, c). n = ''CHURN'') (columns df) = [(''CHURN'', c)]"
    and "impute_most_frequent (revert_unknown c) = Inr c'"
    and "df3 = df\<lparr>columns := map (\<lambda>(n, c0). (n, if n = ''CHURN'' then c' else c0)) (columns df)\<rparr>"
proof -
  from assms obtain n c where f: "filter (\<lambda>(n, c). n = ''CHURN'') (columns df) = [(n, c)]"
    by (auto simp: churn_imputer_def split: list.splits)
  then have "(n, c) \<in> set (filter (\<lambda>(n, c). n = ''CHURN'') (columns df))" by simp
  then have n: "n = ''CHURN''" by simp
  from assms f obtain c' where "impute_most_frequent (revert_unknown c) = Inr c'"
    and "df3 = df\<lparr>columns := map (\<lambda>(n, c0). (n, if n = ''CHURN'' then c' else c0)) (columns df)\<rparr>"
    by (auto simp: churn_imputer_def split: sum.splits)
  with f n that show ?thesis by simp
qed

lemma settled_fill: "settled c \<Longrightarrow> fill_unknown_col c = c"
proof (cases c)
  case (ObjCol xs)
  assume "settled c"
  with ObjCol have "None \<notin> set xs" by simp
  then have "map (\<lambda>x. case x of None \<Rightarrow> Some ''Unknown'' | Some s \<Rightarrow> Some s) xs = xs"
    using fill_with_all_Some [of xs "''Unknown''"] by (simp add: fill_with_def)
  with ObjCol show ?thesis by simp
qed simp_all

lemma is_numerical_median_filled: "is_numerical (median_filled c) = is_numerical c"
  by (cases c) (simp_all add: is_numerical_def)

text \<open>What a successful run of the pipeline returns, column by column.\<close>

lemma clean_Inr:
  assumes "clean parse df = Inr df'"
  obtains df1 c c' where
    "capitalize_columns (set_index df) = Inr df1"
    "distinct (column_names df1)"
    "filter (\<lambda>(n, c). n = ''CHURN'') (columns df1) = [(''CHURN'', c)]"
    "impute_most_frequent (revert_unknown c) = Inr c'"
    "df' = df1\<lparr>columns :=
              map (\<lambda>(n, c). (n, median_filled (to_numeric parse
                                  (if n = ''CHURN'' then c' else fill_unknown_col c))))
                (columns df1)\<rparr>"
    "\<And>n c. (n, c) \<in> set (columns df1) \<Longrightarrow>
        is_numerical (to_numeric parse (if n = ''CHURN'' then c' else fill_unknown_col c)) \<Longrightarrow>
        present (as_float (to_numeric parse (if n = ''CHURN'' then c' else fill_unknown_col c))) \<noteq> []"
    "\<exists>(n, c)\<in>set (columns df1).
        is_numerical (to_numeric parse (if n = ''CHURN'' then c' else fill_unknown_col c))"
proof -
  from assms obtain df1 df2 df3 where s1: "capitalize_columns (set_index df) = Inr df1"
    and s2: "fill_unknown df1 = Inr df2" and s3: "churn_imputer df2 = Inr df3"
    and s4: "impute_numerical (apply_to_numeric parse df3) = Inr df'"
    by (auto simp: clean_def split: sum.splits)
  let ?F2 = "\<lambda>(n, c). (n, if n \<noteq> ''CHURN'' then fill_unknown_col c else c)"
  note df2 = fill_unknown_Inr(1) [OF s2]
  from churn_imputer_Inr [OF s3] obtain c c' where
    ch2: "filter (\<lambda>(n, c). n = ''CHURN'') (columns df2) = [(''CHURN'', c)]"
    and imp: "impute_most_frequent (revert_unknown c) = Inr c'"
    and df3: "df3 = df2\<lparr>columns := map (\<lambda>(n, c0). (n, if n = ''CHURN'' then c' else c0)) (columns df2)\<rparr>"
    by blast
  have names2: "column_names df2 = column_names df1"
    by (rule fill_unknown_names [OF s2])
  have "map ?F2 (filter (\<lambda>(n, c). n = ''CHURN'') (columns df1)) = [(''CHURN'', c)]"
    using ch2 filter_key_map [of "''CHURN''" "\<lambda>n c. if n \<noteq> ''CHURN'' then fill_unknown_col c else c" "columns df1"]
    by (simp add: df2)
  then have ch1: "filter (\<lambda>(n, c). n = ''CHURN'') (columns df1) = [(''CHURN'', c)]"
    by (cases "filter (\<lambda>(n, c). n = ''CHURN'') (columns df1)") (auto split: if_splits)
  have dist: "distinct (column_names df1)"
  proof (rule count_le_1_distinct)
    fix x assume x: "x \<in> set (column_names df1)"
    show "count_list (column_names df1) x \<le> 1"
    proof (cases "x = ''CHURN''")
      case True
      then show ?thesis
        using count_list_names [of "columns df1" "''CHURN''"] ch1 by (simp add: column_names_def)
    next
      case False
      with x fill_unknown_Inr(2) [OF s2] show ?thesis by simp
    qed
  qed
  let ?G = "\<lambda>(n, c). (n, to_numeric parse (if n = ''CHURN'' then c' else fill_unknown_col c))"
  have cols4: "columns (apply_to_numeric parse df3) = map ?G (columns df1)"
    by (simp add: apply_to_numeric_def df3 df2 split_def o_def)
  have d4: "distinct (column_names (apply_to_numeric parse df3))"
    using dist by (simp add: column_names_def cols4 split_def o_def)
  from s4 have ok: "filter (\<lambda>(n, c). is_numerical c) (map ?G (columns df1)) \<noteq> []"
      "\<not> list_ex (\<lambda>(n, c). present (as_float c) = [])
          (filter (\<lambda>(n, c). is_numerical c) (map ?G (columns df1)))"
    and df': "df' = (apply_to_numeric parse df3)\<lparr>columns :=
                map (\<lambda>(n, c). (n, median_filled c)) (map ?G (columns df1))\<rparr>"
    unfolding impute_numerical_cases [OF d4] cols4 by (auto split: if_splits)
  have r5: "df' = df1\<lparr>columns :=
              map (\<lambda>(n, c). (n, median_filled (to_numeric parse
                                  (if n = ''CHURN'' then c' else fill_unknown_col c))))
                (columns df1)\<rparr>"
    unfolding df' by (simp add: apply_to_numeric_def df3 df2 split_def o_def)
  have r6: "present (as_float (to_numeric parse (if n = ''CHURN'' then c' else fill_unknown_col c))) \<noteq> []"
    if "(n, c) \<in> set (columns df1)"
      "is_numerical (to_numeric parse (if n = ''CHURN'' then c' else fill_unknown_col c))" for n c
    using ok(2) that by (force simp: list_ex_iff)
  have r7: "\<exists>(n, c)\<in>set (columns df1).
        is_numerical (to_numeric parse (if n = ''CHURN'' then c' else fill_unknown_col c))"
  proof -
    from ok(1) have "\<exists>x\<in>set (map ?G (columns df1)). (\<lambda>(n, c). is_numerical c) x"
      unfolding filter_empty_conv by blast
    then obtain x where x: "x \<in> ?G ` set (columns df1)" "(\<lambda>(n, c). is_numerical c) x"
      unfolding set_map by (rule bexE)
    from x(1) obtain y where y0: "x = ?G y" "y \<in> set (columns df1)"
      by (rule imageE)
    with x(2) have y: "y \<in> set (columns df1)" "(\<lambda>(n, c). is_numerical c) (?G y)"
      by simp_all
    obtain n c where "y = (n, c)" by (cases y)
    with y show ?thesis by (intro bexI [of _ y]) simp_all
  qed
  from that [OF s1 dist ch1 imp r5 r6 r7] show ?thesis .
qed

subsection \<open>Cleaned frames are fixed points\<close>

lemma clean_cleaned:
  assumes "clean parse df = Inr df'"
  shows "cleaned parse df'"
proof -
  from clean_Inr [OF assms] obtain df1 c c' where
    s1: "capitalize_columns (set_index df) = Inr df1"
    and dist: "distinct (column_names df1)"
    and ch1: "filter (\<lambda>(n, c). n = ''CHURN'') (columns df1) = [(''CHURN'', c)]"
    and imp: "impute_most_frequent (revert_unknown c) = Inr c'"
    and df': "df' = df1\<lparr>columns :=
              map (\<lambda>(n, c). (n, median_filled (to_numeric parse
                                  (if n = ''CHURN'' then c' else fill_unknown_col c))))
                (columns df1)\<rparr>"
    and med: "\<And>n c. (n, c) \<in> set (columns df1) \<Longrightarrow>
        is_numerical (to_numeric parse (if n = ''CHURN'' then c' else fill_unknown_col c)) \<Longrightarrow>
        present (as_float (to_numeric parse (if n = ''CHURN'' then c' else fill_unknown_col c))) \<noteq> []"
    and num: "\<exists>(n, c)\<in>set (columns df1).
        is_numerical (to_numeric parse (if n = ''CHURN'' then c' else fill_unknown_col c))"
    by blast
  let ?f = "\<lambda>n c. median_filled (to_numeric parse (if n = ''CHURN'' then c' else fill_unknown_col c))"
  have cols: "columns df' = map (\<lambda>(n, c). (n, ?f n c)) (columns df1)"
    by (simp add: df')
  have names: "column_names df' = column_names df1"
    unfolding column_names_def cols by (rule names_map)
  have good: "\<forall>n\<in>set (column_names df'). n \<noteq> [] \<and> \<not> islower (hd n)"
    using normalize_names_Inr [OF capitalize_columns_Inr(3) [OF s1]] names by simp
  have sc: "settled c'" by (rule imputed_settled [OF imp])
  have stable: "stable_col parse (?f n d)" if "(n, d) \<in> set (columns df1)" for n d
  proof (rule stable_col_after)
    show "fill_unknown_col (if n = ''CHURN'' then c' else fill_unknown_col d)
          = (if n = ''CHURN'' then c' else fill_unknown_col d)"
      using settled_fill [OF sc] by (simp add: fill_unknown_col_idem)
    show "is_numerical (to_numeric parse (if n = ''CHURN'' then c' else fill_unknown_col d)) \<longrightarrow>
          present (as_float (to_numeric parse (if n = ''CHURN'' then c' else fill_unknown_col d))) \<noteq> []"
      using med [OF that] by blast
  qed
  have all_stable: "\<forall>(n, c)\<in>set (columns df'). stable_col parse c"
    unfolding cols using stable by auto
  have "(''CHURN'', c) \<in> set (filter (\<lambda>(n, c). n = ''CHURN'') (columns df1))"
    by (simp add: ch1)
  then have cin: "(''CHURN'', c) \<in> set (columns df1)" by simp
  have ch: "filter (\<lambda>(n, c). n = ''CHURN'') (columns df')
            = [(''CHURN'', median_filled (to_numeric parse c'))]"
    unfolding cols filter_key_map [of "''CHURN''" ?f "columns df1"] ch1 by simp
  have "settled (median_filled (to_numeric parse c'))"
    using med [OF cin] by (intro settled_after [OF sc]) simp
  with ch have churn: "\<exists>c. filter (\<lambda>(n, c). n = ''CHURN'') (columns df') = [(''CHURN'', c)] \<and> settled c"
    by blast
  from num obtain n d where nd: "(n, d) \<in> set (columns df1)"
    "is_numerical (to_numeric parse (if n = ''CHURN'' then c' else fill_unknown_col d))"
    by blast
  have "(n, ?f n d) \<in> set (columns df')"
    unfolding cols using nd(1) by force
  moreover have "is_numerical (?f n d)"
    using nd(2) by (simp only: is_numerical_median_filled)
  ultimately have ex: "\<exists>(n, c)\<in>set (columns df'). is_numerical c" by blast
  show ?thesis
    unfolding cleaned_def using good dist names all_stable churn ex by simp
qed

lemma user_id_lower: "islower (hd ''user_id'')"
  by (simp add: islower_def)

lemma cleaned_fixed:
  assumes "cleaned parse df"
  shows "clean parse df = Inr df"
proof -
  from assms have good: "\<forall>n\<in>set (column_names df). n \<noteq> [] \<and> \<not> islower (hd n)"
    and dist: "distinct (column_names df)"
    and stable: "\<And>n c. (n, c) \<in> set (columns df) \<Longrightarrow> stable_col parse c"
    and num: "\<exists>(n, c)\<in>set (columns df). is_numerical c"
    by (auto simp: cleaned_def)
  from assms obtain t where ch: "filter (\<lambda>(n, c). n = ''CHURN'') (columns df) = [(''CHURN'', t)]"
    and st: "settled t"
    by (auto simp: cleaned_def)
  have "''user_id'' \<notin> set (column_names df)"
    using good user_id_lower by blast
  then have a: "set_index df = df" by (rule set_index_no_user_id)
  have "zip (column_names df) (map snd (columns df)) = columns df"
    by (simp add: column_names_def zip_map_fst_snd)
  then have b: "capitalize_columns df = Inr df"
    by (simp add: capitalize_columns_def normalize_names_fixed [OF good])
  have "\<not> list_ex (\<lambda>n. n \<noteq> ''CHURN'' \<and> 1 < count_list (column_names df) n) (column_names df)"
    using distinct_count_le_1 [OF dist] by (auto simp: list_ex_iff not_less)
  moreover have "map (\<lambda>(n, c). (n, if n \<noteq> ''CHURN'' then fill_unknown_col c else c)) (columns df)
                 = columns df"
    by (rule map_idI) (use stable in \<open>auto simp: stable_col_def\<close>)
  ultimately have c: "fill_unknown df = Inr df"
    by (simp add: fill_unknown_def)
  have "map (\<lambda>(n, c0). (n, if n = ''CHURN'' then t else c0)) (columns df) = columns df"
  proof (rule map_idI)
    fix x assume x: "x \<in> set (columns df)"
    obtain n d where nd: "x = (n, d)" by (cases x)
    show "(\<lambda>(n, c0). (n, if n = ''CHURN'' then t else c0)) x = x"
    proof (cases "n = ''CHURN''")
      case True
      with x nd have "(n, d) \<in> set (filter (\<lambda>(n, c). n = ''CHURN'') (columns df))" by simp
      then have "d = t" unfolding ch by simp
      with nd True show ?thesis by simp
    next
      case False
      with nd show ?thesis by simp
    qed
  qed
  then have d: "churn_imputer df = Inr df"
    by (simp add: churn_imputer_def ch settled_fixed [OF st])
  have "map (\<lambda>(n, c). (n, to_numeric parse c)) (columns df) = columns df"
    by (rule map_idI) (use stable in \<open>auto simp: stable_col_def\<close>)
  then have e: "apply_to_numeric parse df = df"
    by (simp add: apply_to_numeric_def)
  have f1: "filter (\<lambda>(n, c). is_numerical c) (columns df) \<noteq> []"
    using num by (auto simp: filter_empty_conv)
  have f2: "\<not> list_ex (\<lambda>(n, c). present (as_float c) = [])
               (filter (\<lambda>(n, c). is_numerical c) (columns df))"
    using stable by (auto simp: list_ex_iff stable_col_def)
  have f3: "map (\<lambda>(n, c). (n, median_filled c)) (columns df) = columns df"
    by (rule map_idI) (use stable in \<open>auto simp: stable_col_def\<close>)
  have f: "impute_numerical df = Inr df"
    unfolding impute_numerical_cases [OF dist] using f1 f2 f3 by simp
  show ?thesis
    by (simp add: clean_def a b c d e f)
qed

section \<open>Properties of row selection and of the clauses\<close>

lemma keep_Nil [simp]: "keep [] xs = []" "keep m [] = []"
  by (simp_all add: keep_def)

lemma keep_Cons [simp]: "keep (b # m) (x # xs) = (if b then x # keep m xs else keep m xs)"
  by (simp add: keep_def)

lemma keep_map: "map P (keep m xs) = keep m (map P xs)"
proof (induction m arbitrary: xs)
  case Nil
  then show ?case by simp
next
  case (Cons b m)
  then show ?case by (cases xs) simp_all
qed

lemma mask_and_Cons [simp]: "mask_and (a # as) (b # bs) = (a \<and> b) # mask_and as bs"
  by (simp add: mask_and_def)

lemma mask_and_Nil [simp]: "mask_and [] bs = []" "mask_and as [] = []"
  by (simp_all add: mask_and_def)

lemma length_mask_and: "length (mask_and a b) = min (length a) (length b)"
  by (simp add: mask_and_def)

lemma keep_keep: "keep (keep m b) (keep m ys) = keep (mask_and m b) ys"
proof (induction m arbitrary: b ys)
  case Nil
  then show ?case by simp
next
  case (Cons a m)
  show ?case
  proof (cases b)
    case Nil
    then show ?thesis by simp
  next
    case b: (Cons b0 b')
    show ?thesis
    proof (cases ys)
      case Nil
      then show ?thesis by simp
    next
      case (Cons y ys')
      with b Cons.IH [of b' ys'] show ?thesis by simp
    qed
  qed
qed

lemma keep_all: "length xs \<le> n \<Longrightarrow> keep (replicate n True) xs = xs"
proof (induction xs arbitrary: n)
  case Nil
  then show ?case by simp
next
  case (Cons x xs)
  then obtain k where "n = Suc k" by (cases n) auto
  with Cons show ?case by simp
qed

lemma select_col_select_col:
  "select_col (keep m b) (select_col m c) = select_col (mask_and m b) c"
  by (cases c) (simp_all add: keep_keep)

lemma select_rows_select_rows:
  "select_rows (keep m b) (select_rows m df) = select_rows (mask_and m b) df"
  by (simp add: select_rows_def keep_keep select_col_select_col split_def o_def)

lemma select_col_all: "col_length c \<le> n \<Longrightarrow> select_col (replicate n True) c = c"
  by (cases c) (simp_all add: keep_all)

lemma select_rows_all:
  assumes "wf_frame df"
  shows "select_rows (replicate (length (index df)) True) df = df"
proof -
  have "map (\<lambda>(n, c). (n, select_col (replicate (length (index df)) True) c)) (columns df)
        = columns df"
  proof (rule map_idI)
    fix x assume x: "x \<in> set (columns df)"
    obtain n c where nc: "x = (n, c)" by (cases x)
    with x assms have "col_length c = length (index df)"
      by (auto simp: wf_frame_def list_all_iff)
    with nc show "(\<lambda>(n, c). (n, select_col (replicate (length (index df)) True) c)) x = x"
      by (simp add: select_col_all)
  qed
  then show ?thesis by (simp add: select_rows_def keep_all)
qed

lemma eq_value_select: "eq_value (select_col m c) v = keep m (eq_value c v)"
  by (cases c) (simp_all add: keep_map)

lemma in_range_select:
  "in_range (select_col m c) lo hi
   = (case in_range c lo hi of Inl e \<Rightarrow> Inl e | Inr b \<Rightarrow> Inr (keep m b))"
  by (cases c) (simp_all add: keep_map)

lemma map_of_select:
  "map_of (columns (select_rows m df)) k = map_option (select_col m) (map_of (columns df) k)"
proof -
  have "map_of (map (\<lambda>(n, c). (n, select_col m c)) cs) k = map_option (select_col m) (map_of cs k)"
    for cs :: "(string \<times> column) list"
    by (induction cs) auto
  then show ?thesis by (simp add: select_rows_def)
qed

lemma clause_mask_select:
  "clause_mask (select_rows m df) cl
   = (case clause_mask df cl of Inl e \<Rightarrow> Inl e | Inr b \<Rightarrow> Inr (keep m b))"
proof (cases cl)
  case (CatEq column v)
  then show ?thesis
    by (cases "map_of (columns df) column") (simp_all add: map_of_select eq_value_select)
next
  case (IdEq i)
  then show ?thesis by (simp add: index_eq_def select_rows_def keep_map)
next
  case (InRange column lo hi)
  then show ?thesis
    by (cases "map_of (columns df) column") (simp_all add: map_of_select in_range_select)
qed

lemma apply_clauses_select:
  assumes "\<forall>cl\<in>set cls. \<exists>b. clause_mask df cl = Inr b"
  shows "apply_clauses cls (select_rows m df)
         = Inr (select_rows (foldl mask_and m (map (the_mask df) cls)) df)"
  using assms
proof (induction cls arbitrary: m)
  case Nil
  then show ?case by simp
next
  case (Cons cl cls)
  then obtain b where b: "clause_mask df cl = Inr b" by auto
  have "apply_clause cl (select_rows m df) = Inr (select_rows (mask_and m b) df)"
    by (simp add: apply_clause_def clause_mask_select b select_rows_select_rows)
  moreover have "apply_clauses cls (select_rows (mask_and m b) df)
        = Inr (select_rows (foldl mask_and (mask_and m b) (map (the_mask df) cls)) df)"
    using Cons.prems by (intro Cons.IH) simp
  moreover have "the_mask df cl = b" by (simp add: the_mask_def b)
  ultimately show ?case by simp
qed

lemma mask_and_nth:
  "i < length a \<Longrightarrow> i < length b \<Longrightarrow> mask_and a b ! i = (a ! i \<and> b ! i)"
  by (simp add: mask_and_def)

lemma foldl_mask_and:
  "\<forall>b\<in>set bs. length b = length m \<Longrightarrow>
   foldl mask_and m bs = map (\<lambda>i. m ! i \<and> (\<forall>b\<in>set bs. b ! i)) [0..<length m]"
proof (induction bs arbitrary: m)
  case Nil
  show ?case by (simp add: map_nth)
next
  case (Cons b bs)
  then have lb: "length b = length m" by simp
  then have l: "length (mask_and m b) = length m" by (simp add: length_mask_and)
  have "foldl mask_and (mask_and m b) bs
        = map (\<lambda>i. mask_and m b ! i \<and> (\<forall>b\<in>set bs. b ! i)) [0..<length (mask_and m b)]"
    using Cons.prems l by (intro Cons.IH) simp
  also have "\<dots> = map (\<lambda>i. m ! i \<and> (\<forall>b\<in>set (b # bs). b ! i)) [0..<length m]"
    unfolding l using lb by (intro map_cong refl) (auto simp: mask_and_nth)
  finally show ?case by simp
qed

lemma in_range_length: "in_range c lo hi = Inr b \<Longrightarrow> length b = col_length c"
  by (cases c) auto

lemma eq_value_length: "length (eq_value c v) = col_length c"
  by (cases c) simp_all

lemma wf_column_length:
  "wf_frame df \<Longrightarrow> map_of (columns df) k = Some c \<Longrightarrow> col_length c = length (index df)"
  by (auto simp: wf_frame_def list_all_iff dest: map_of_SomeD)

lemma clause_mask_length:
  assumes "wf_frame df" and "clause_mask df cl = Inr b"
  shows "length b = length (index df)"
proof (cases cl)
  case (CatEq column v)
  with assms show ?thesis
    by (auto simp: eq_value_length wf_column_length split: option.splits)
next
  case (IdEq i)
  with assms show ?thesis by (auto simp: index_eq_def)
next
  case (InRange column lo hi)
  with assms show ?thesis
    by (auto simp: wf_column_length dest: in_range_length split: option.splits)
qed

lemma apply_clauses_conjunction:
  assumes "wf_frame df" and "\<forall>cl\<in>set cls. \<exists>b. clause_mask df cl = Inr b"
  shows "apply_clauses cls df = Inr (select_rows (conjunction_mask df cls) df)"
proof -
  let ?n = "length (index df)"
  let ?m = "replicate ?n True"
  have len: "\<forall>b\<in>set (map (the_mask df) cls). length b = length ?m"
    using assms clause_mask_length [OF assms(1)] by (fastforce simp: the_mask_def)
  have sat: "satisfies df i cl = the_mask df cl ! i" if "cl \<in> set cls" for i cl
    using assms(2) that by (auto simp: satisfies_def the_mask_def)
  have "foldl mask_and ?m (map (the_mask df) cls)
        = map (\<lambda>i. ?m ! i \<and> (\<forall>b\<in>set (map (the_mask df) cls). b ! i)) [0..<length ?m]"
    by (rule foldl_mask_and [OF len])
  also have "\<dots> = conjunction_mask df cls"
    unfolding conjunction_mask_def
    by (intro map_cong) (auto simp: list_all_iff sat)
  finally have "foldl mask_and ?m (map (the_mask df) cls) = conjunction_mask df cls" .
  with apply_clauses_select [OF assms(2), of ?m] select_rows_all [OF assms(1)]
  show ?thesis by simp
qed

lemma conjunction_mask_set:
  "set cls = set cls' \<Longrightarrow> conjunction_mask df cls = conjunction_mask df cls'"
  by (simp add: conjunction_mask_def list_all_iff)

lemma apply_sliders_clauses:
  "apply_sliders sl df = apply_clauses (map (\<lambda>(n, lo, hi). InRange n lo hi) sl) df"
proof (induction sl arbitrary: df)
  case Nil
  then show ?case by simp
next
  case (Cons s sl)
  obtain n lo hi where s: "s = (n, lo, hi)" by (cases s)
  show ?case unfolding s
    by (simp add: apply_clause_def Cons.IH split: option.splits sum.splits)
qed

lemma apply_clauses_append:
  "apply_clauses (as @ bs) df
   = (case apply_clauses as df of Inl e \<Rightarrow> Inl e | Inr df' \<Rightarrow> apply_clauses bs df')"
  by (induction as arbitrary: df) (simp_all split: sum.splits)

lemma select_rows_index: "index (select_rows m df) = keep m (index df)"
  by (simp add: select_rows_def)

lemma first_layer_clauses:
  "first_layer df selected_column selected_value selected_customer_id
   = apply_clauses
       ((if selected_value \<noteq> '''' then [CatEq selected_column selected_value] else []) @
        (if selected_customer_id \<noteq> LStr '''' then [IdEq selected_customer_id] else [])) df"
proof (cases "map_of (columns df) selected_column")
  case None
  then show ?thesis
    by (simp add: first_layer_def apply_clause_def)
next
  case (Some c)
  have "select_rows (keep (eq_value c selected_value) (index_eq df selected_customer_id))
          (select_rows (eq_value c selected_value) df)
        = select_rows (mask_and (eq_value c selected_value) (index_eq df selected_customer_id)) df"
    by (rule select_rows_select_rows)
  moreover have "index_eq (select_rows (eq_value c selected_value) df) selected_customer_id
        = keep (eq_value c selected_value) (index_eq df selected_customer_id)"
    by (simp add: index_eq_def select_rows_index keep_map)
  ultimately show ?thesis using Some
    by (simp add: first_layer_def apply_clause_def)
qed

lemma filtered_data_clauses:
  "filtered_data df selected_column selected_value selected_customer_id slider
   = apply_clauses
       (present_clauses df selected_column selected_value selected_customer_id slider) df"
  unfolding filtered_data_def present_clauses_def first_layer_clauses apply_sliders_clauses
  by (simp only: apply_clauses_append append_assoc [symmetric])

lemma slider_clause_valid:
  assumes "wf_frame df" and "(n, lo, hi) \<in> set (slider_values df slider)"
  shows "\<exists>b. clause_mask df (InRange n lo hi) = Inr b"
proof -
  from assms(2) obtain c where c: "(n, c) \<in> set (columns df)" "is_numerical c"
    by (auto simp: slider_values_def)
  from assms(1) have "distinct (map fst (columns df))"
    by (simp add: wf_frame_def column_names_def)
  with c(1) have "map_of (columns df) n = Some c" by simp
  moreover from c(2) obtain b where "in_range c lo hi = Inr b"
    by (cases c) (auto simp: is_numerical_def)
  ultimately show ?thesis by simp
qed

lemma present_clauses_valid:
  assumes "wf_frame df" and "selected_column \<in> set (column_names df)"
    and "cl \<in> set (present_clauses df selected_column selected_value selected_customer_id slider)"
  shows "\<exists>b. clause_mask df cl = Inr b"
proof -
  from assms(2) obtain c where "map_of (columns df) selected_column = Some c"
    by (cases "map_of (columns df) selected_column")
       (auto simp: column_names_def map_of_eq_None_iff)
  then have cat: "\<exists>b. clause_mask df (CatEq selected_column selected_value) = Inr b" by simp
  have idc: "\<exists>b. clause_mask df (IdEq selected_customer_id) = Inr b" by simp
  from assms(3) consider "cl = CatEq selected_column selected_value"
    | "cl = IdEq selected_customer_id"
    | n lo hi where "cl = InRange n lo hi" "(n, lo, hi) \<in> set (slider_values df slider)"
    by (auto simp: present_clauses_def split: if_splits)
  then show ?thesis
  proof cases
    case 1
    with cat show ?thesis by simp
  next
    case 2
    with idc show ?thesis by simp
  next
    case 3
    with slider_clause_valid [OF assms(1) 3(2)] show ?thesis by simp
  qed
qed

section \<open>The target column is required\<close>

text \<open>
  C10. When the frame, after the identifier promotion and the capitalisation of the
  names, has no column named \<^verbatim>\<open>CHURN\<close>, the target step raises \<^verbatim>\<open>KeyError\<close>
  and the cleaning returns no frame: it ends in an error, which is that
  \<^verbatim>\<open>KeyError\<close> whenever the capitalised names are distinct (otherwise the loop before
  it has already failed on a repeated name).
\<close>

theorem clean_requires_churn:
  assumes "capitalize_columns (set_index df) = Inr df1"
    and "''CHURN'' \<notin> set (column_names df1)"
  shows "churn_imputer df1 = Inl KeyError
         \<and> (\<exists>e. clean parse df = Inl e)
         \<and> (distinct (column_names df1) \<longrightarrow> clean parse df = Inl KeyError)"
proof -
  have k: "churn_imputer df2 = Inl KeyError" if "fill_unknown df1 = Inr df2" for df2
    using that assms(2) fill_unknown_names [OF that] by (simp add: churn_imputer_no_churn)
  have c: "clean parse df = (case fill_unknown df1 of Inl e \<Rightarrow> Inl e | Inr df2 \<Rightarrow> Inl KeyError)"
    using k by (simp add: clean_def assms(1) split: sum.splits)
  have "clean parse df = Inl KeyError" if "distinct (column_names df1)"
  proof (cases "fill_unknown df1")
    case (Inl e)
    with fill_unknown_error [OF Inl] that show ?thesis by simp
  next
    case (Inr df2)
    then show ?thesis by (simp add: c)
  qed
  moreover have "\<exists>e. clean parse df = Inl e" by (simp add: c split: sum.splits)
  ultimately show ?thesis using assms(2) by (simp add: churn_imputer_no_churn)
qed

theorem clean_requires_churn_witness:
  "clean parse_decimal no_target_frame = Inl KeyError"
proof -
  let ?df1 = "\<lparr>index = [LStr ''a'', LStr ''b''],
      columns = [(''REGION'', ObjCol [Some ''DAKAR'', None]),
                 (''MONTANT'', FloatCol [Some 10, Some 30])]\<rparr>"
  have a: "capitalize_columns (set_index no_target_frame) = Inr ?df1"
    by code_simp
  have b: "''CHURN'' \<notin> set (column_names ?df1)"
    by (simp add: column_names_def)
  have d: "distinct (column_names ?df1)"
    by (simp add: column_names_def)
  from clean_requires_churn [OF a b, of parse_decimal] d show ?thesis by simp
qed

section \<open>Mode imputation of the target\<close>

lemma replace_churn_same:
  assumes "filter (\<lambda>(n, c). n = ''CHURN'') (columns df) = [(''CHURN'', t)]"
  shows "map (\<lambda>(n, c0). (n, if n = ''CHURN'' then t else c0)) (columns df) = columns df"
proof (rule map_idI)
  fix x assume x: "x \<in> set (columns df)"
  obtain n d where nd: "x = (n, d)" by (cases x)
  show "(\<lambda>(n, c0). (n, if n = ''CHURN'' then t else c0)) x = x"
  proof (cases "n = ''CHURN''")
    case True
    with x nd have "(n, d) \<in> set (filter (\<lambda>(n, c). n = ''CHURN'') (columns df))" by simp
    then have "d = t" unfolding assms by simp
    with nd True show ?thesis by simp
  next
    case False
    with nd show ?thesis by simp
  qed
qed

lemma fill_with_missing:
  "fill_with m xs = map (\<lambda>x. if x = None then Some m else x) xs"
  by (auto simp: fill_with_def split: option.splits)

text \<open>
  C5. In a frame with one column \<^verbatim>\<open>CHURN\<close>, whatever its class, the target step
  succeeds as soon as the column has an observed value. In a text column every cell
  that is missing or \<^verbatim>\<open>'Unknown'\<close> becomes one value \<open>m\<close>, where \<open>m\<close> is an
  observed value (neither missing nor \<^verbatim>\<open>'Unknown'\<close>) that no value is observed more
  often than. In a float column every missing cell becomes one value \<open>m\<close>, a present
  value that no value is present more often than. An integer column has no missing
  cell and the frame is returned as it is. In each case the other cells and the other
  columns stay as they are. \<^verbatim>\<open>[Yes, missing, Yes]\<close> becomes \<^verbatim>\<open>[Yes, Yes, Yes]\<close>.
\<close>

theorem churn_imputer_mode:
  assumes "filter (\<lambda>(n, c). n = ''CHURN'') (columns df) = [(''CHURN'', c)]"
  shows "(\<forall>xs. c = ObjCol xs
             \<and> present (map (\<lambda>x. if x = Some ''Unknown'' then None else x) xs) \<noteq> [] \<longrightarrow>
           (\<exists>m. m \<in> set (present (map (\<lambda>x. if x = Some ''Unknown'' then None else x) xs))
              \<and> (\<forall>v. count_list (present (map (\<lambda>x. if x = Some ''Unknown'' then None else x) xs)) v
                      \<le> count_list (present (map (\<lambda>x. if x = Some ''Unknown'' then None else x) xs)) m)
              \<and> churn_imputer df
                  = Inr (df\<lparr>columns :=
                           map (\<lambda>(n, c). (n, if n = ''CHURN''
                                              then ObjCol (map (\<lambda>x. if x = None \<or> x = Some ''Unknown''
                                                                     then Some m else x) xs)
                                              else c))
                             (columns df)\<rparr>)))
       \<and> (\<forall>xs. c = FloatCol xs \<and> present xs \<noteq> [] \<longrightarrow>
           (\<exists>m. m \<in> set (present xs)
              \<and> (\<forall>v. count_list (present xs) v \<le> count_list (present xs) m)
              \<and> churn_imputer df
                  = Inr (df\<lparr>columns :=
                           map (\<lambda>(n, c). (n, if n = ''CHURN''
                                              then FloatCol (map (\<lambda>x. if x = None then Some m else x) xs)
                                              else c))
                             (columns df)\<rparr>)))
       \<and> (\<forall>xs. c = IntCol xs \<and> xs \<noteq> [] \<longrightarrow> churn_imputer df = Inr df)"
proof (intro conjI allI impI)
  fix xs
  assume a: "c = ObjCol xs
             \<and> present (map (\<lambda>x. if x = Some ''Unknown'' then None else x) xs) \<noteq> []"
  let ?ps = "present (map (\<lambda>x. if x = Some ''Unknown'' then None else x) xs)"
  from a have ne: "?ps \<noteq> []" by simp
  from most_frequent_spec [OF ne, of str_le]
  obtain m where m: "most_frequent str_le ?ps = Some m" "m \<in> set ?ps"
    "\<forall>v. count_list ?ps v \<le> count_list ?ps m" by blast
  have "churn_imputer df
        = Inr (df\<lparr>columns :=
                 map (\<lambda>(n, c). (n, if n = ''CHURN''
                                    then ObjCol (map (\<lambda>x. if x = None \<or> x = Some ''Unknown''
                                                           then Some m else x) xs)
                                    else c))
                   (columns df)\<rparr>)"
    using a by (simp add: churn_imputer_def assms m(1) fill_with_revert)
  with m(2,3)
  show "\<exists>m. m \<in> set ?ps \<and> (\<forall>v. count_list ?ps v \<le> count_list ?ps m)
           \<and> churn_imputer df
               = Inr (df\<lparr>columns :=
                        map (\<lambda>(n, c). (n, if n = ''CHURN''
                                           then ObjCol (map (\<lambda>x. if x = None \<or> x = Some ''Unknown''
                                                                  then Some m else x) xs)
                                           else c))
                          (columns df)\<rparr>)"
    by blast
next
  fix xs
  assume a: "c = FloatCol xs \<and> present xs \<noteq> []"
  then have ne: "present xs \<noteq> []" by simp
  from most_frequent_spec [OF ne, of "(\<le>)"]
  obtain m where m: "most_frequent (\<le>) (present xs) = Some m" "m \<in> set (present xs)"
    "\<forall>v. count_list (present xs) v \<le> count_list (present xs) m" by blast
  have "churn_imputer df
        = Inr (df\<lparr>columns :=
                 map (\<lambda>(n, c). (n, if n = ''CHURN''
                                    then FloatCol (map (\<lambda>x. if x = None then Some m else x) xs)
                                    else c))
                   (columns df)\<rparr>)"
    using a by (simp add: churn_imputer_def assms m(1) fill_with_missing)
  with m(2,3)
  show "\<exists>m. m \<in> set (present xs) \<and> (\<forall>v. count_list (present xs) v \<le> count_list (present xs) m)
           \<and> churn_imputer df
               = Inr (df\<lparr>columns :=
                        map (\<lambda>(n, c). (n, if n = ''CHURN''
                                           then FloatCol (map (\<lambda>x. if x = None then Some m else x) xs)
                                           else c))
                          (columns df)\<rparr>)"
    by blast
next
  fix xs
  assume a: "c = IntCol xs \<and> xs \<noteq> []"
  with assms have f: "filter (\<lambda>(n, c). n = ''CHURN'') (columns df) = [(''CHURN'', IntCol xs)]"
    by simp
  show "churn_imputer df = Inr df"
    using a by (simp add: churn_imputer_def f replace_churn_same [OF f])
qed

theorem churn_imputer_mode_witness:
  "churn_imputer churn_frame
   = Inr \<lparr>index = [LInt 0, LInt 1, LInt 2],
      columns = [(''MONTANT'', FloatCol [Some 10, None, Some 30]),
                 (''CHURN'', ObjCol [Some ''Yes'', Some ''Yes'', Some ''Yes''])]\<rparr>
   \<and> churn_imputer churn_float_frame
   = Inr \<lparr>index = [LInt 0, LInt 1, LInt 2, LInt 3],
      columns = [(''MONTANT'', FloatCol [Some 10, None, Some 30, Some 5]),
                 (''CHURN'', FloatCol [Some 1, Some 1, Some 1, Some 0])]\<rparr>
   \<and> churn_imputer churn_int_frame = Inr churn_int_frame"
proof -
  have a: "filter (\<lambda>(n, c). n = ''CHURN'') (columns churn_frame)
           = [(''CHURN'', ObjCol [Some ''Yes'', None, Some ''Yes''])]"
    by (simp add: churn_frame_def)
  have t: "churn_imputer churn_frame
   = Inr \<lparr>index = [LInt 0, LInt 1, LInt 2],
      columns = [(''MONTANT'', FloatCol [Some 10, None, Some 30]),
                 (''CHURN'', ObjCol [Some ''Yes'', Some ''Yes'', Some ''Yes''])]\<rparr>"
    using churn_imputer_mode [OF a] by (auto simp: churn_frame_def)
  have b: "filter (\<lambda>(n, c). n = ''CHURN'') (columns churn_float_frame)
           = [(''CHURN'', FloatCol [Some 1, None, Some 1, Some 0])]"
    by (simp add: churn_float_frame_def)
  from churn_imputer_mode [OF b]
  obtain m :: real where m: "m \<in> set (present [Some 1, None, Some 1, Some 0])"
    "\<forall>v. count_list (present [Some 1, None, Some 1, Some (0::real)]) v
         \<le> count_list (present [Some 1, None, Some 1, Some 0]) m"
    "churn_imputer churn_float_frame
     = Inr (churn_float_frame\<lparr>columns :=
              map (\<lambda>(n, c). (n, if n = ''CHURN''
                                 then FloatCol (map (\<lambda>x. if x = None then Some m else x)
                                                  [Some 1, None, Some 1, Some 0])
                                 else c))
                (columns churn_float_frame)\<rparr>)"
    by auto
  from m(2) have "count_list (present [Some 1, None, Some 1, Some (0::real)]) 1
                  \<le> count_list (present [Some 1, None, Some 1, Some 0]) m" by blast
  with m(1) have "m = 1" by (auto split: if_splits)
  with m(3) have f: "churn_imputer churn_float_frame
   = Inr \<lparr>index = [LInt 0, LInt 1, LInt 2, LInt 3],
      columns = [(''MONTANT'', FloatCol [Some 10, None, Some 30, Some 5]),
                 (''CHURN'', FloatCol [Some 1, Some 1, Some 1, Some 0])]\<rparr>"
    by (simp add: churn_float_frame_def)
  have c: "filter (\<lambda>(n, c). n = ''CHURN'') (columns churn_int_frame)
           = [(''CHURN'', IntCol [0, 1, 1])]"
    by (simp add: churn_int_frame_def)
  from churn_imputer_mode [OF c] have i: "churn_imputer churn_int_frame = Inr churn_int_frame"
    by simp
  from t f i show ?thesis by simp
qed

section \<open>Median imputation of the numerical columns\<close>



section \<open>Cleaning twice\<close>

text \<open>
  C2. For every reader of numbers and every frame on which the cleaning succeeds,
  cleaning the result again succeeds and returns that same result: the second pass of
  identifier promotion, capitalisation, \<^verbatim>\<open>'Unknown'\<close> replacement, target
  imputation, numeric re-inference, median imputation and cast back changes nothing.
\<close>

theorem clean_idempotent:
  assumes "clean parse df = Inr df'"
  shows "clean parse df' = Inr df'"
  by (rule cleaned_fixed) (rule clean_cleaned [OF assms])

theorem clean_idempotent_witness:
  "clean parse_decimal raw_frame = Inr raw_frame_cleaned
   \<and> clean parse_decimal raw_frame_cleaned = Inr raw_frame_cleaned"
proof -
  have a: "clean parse_decimal raw_frame = Inr raw_frame_cleaned"
    by code_simp
  from clean_idempotent [OF a] a show ?thesis by simp
qed

section \<open>The clauses of a filter in any order\<close>

text \<open>
  C7. In a frame with distinct column names whose columns all have the length of the
  index, with the selected categorical column one of its columns: the clauses that are
  present (the categorical equality unless the selected value is empty, the identifier
  equality unless the selected user is empty, one inclusive range per numerical
  column), applied one after the other in any order, succeed and give the frame the
  page computes, which is the frame of the rows that satisfy every present clause.
\<close>

theorem filter_any_order:
  assumes "wf_frame df" and "selected_column \<in> set (column_names df)"
    and "set cls = set (present_clauses df selected_column selected_value selected_customer_id slider)"
  shows "apply_clauses cls df
         = filtered_data df selected_column selected_value selected_customer_id slider
       \<and> filtered_data df selected_column selected_value selected_customer_id slider
         = Inr (select_rows
                  (conjunction_mask df
                     (present_clauses df selected_column selected_value selected_customer_id slider))
                  df)"
proof -
  let ?pc = "present_clauses df selected_column selected_value selected_customer_id slider"
  have v: "\<forall>cl\<in>set ?pc. \<exists>b. clause_mask df cl = Inr b"
    using present_clauses_valid [OF assms(1,2)] by blast
  then have v': "\<forall>cl\<in>set cls. \<exists>b. clause_mask df cl = Inr b"
    using assms(3) by simp
  have a: "filtered_data df selected_column selected_value selected_customer_id slider
           = Inr (select_rows (conjunction_mask df ?pc) df)"
    unfolding filtered_data_clauses by (rule apply_clauses_conjunction [OF assms(1) v])
  have "apply_clauses cls df = Inr (select_rows (conjunction_mask df cls) df)"
    by (rule apply_clauses_conjunction [OF assms(1) v'])
  also have "conjunction_mask df cls = conjunction_mask df ?pc"
    by (rule conjunction_mask_set [OF assms(3)])
  finally show ?thesis using a by simp
qed

theorem filter_any_order_witness:
  "apply_clauses
     [InRange ''REGULARITY'' 0 100, IdEq (LStr ''c''), InRange ''TENURE'' 0 100,
      CatEq ''Region'' ''THIES'', InRange ''MONTANT'' 15 30] raw_frame_cleaned
   = Inr \<lparr>index = [LStr ''c''],
          columns = [(''Region'', ObjCol [Some ''THIES'']),
                     (''MONTANT'', FloatCol [Some 30]),
                     (''TENURE'', IntCol [3]),
                     (''REGULARITY'', IntCol [3]),
                     (''CHURN'', ObjCol [Some ''Yes''])]\<rparr>"
proof -
  have w: "wf_frame raw_frame_cleaned"
    by (simp add: wf_frame_def raw_frame_cleaned_def column_names_def)
  have c: "''Region'' \<in> set (column_names raw_frame_cleaned)"
    by (simp add: raw_frame_cleaned_def column_names_def)
  have p: "present_clauses raw_frame_cleaned ''Region'' ''THIES'' (LStr ''c'') example_slider
           = [CatEq ''Region'' ''THIES'', IdEq (LStr ''c''), InRange ''MONTANT'' 15 30,
              InRange ''TENURE'' 0 100, InRange ''REGULARITY'' 0 100]"
    by (simp add: present_clauses_def slider_values_def raw_frame_cleaned_def is_numerical_def
        example_slider_def)
  have s: "set [InRange ''REGULARITY'' 0 100, IdEq (LStr ''c''), InRange ''TENURE'' 0 100,
                CatEq ''Region'' ''THIES'', InRange ''MONTANT'' 15 30]
           = set (present_clauses raw_frame_cleaned ''Region'' ''THIES'' (LStr ''c'') example_slider)"
    unfolding p by auto
  have f: "filtered_data raw_frame_cleaned ''Region'' ''THIES'' (LStr ''c'') example_slider
   = Inr \<lparr>index = [LStr ''c''],
          columns = [(''Region'', ObjCol [Some ''THIES'']),
                     (''MONTANT'', FloatCol [Some 30]),
                     (''TENURE'', IntCol [3]),
                     (''REGULARITY'', IntCol [3]),
                     (''CHURN'', ObjCol [Some ''Yes''])]\<rparr>"
    by code_simp
  from filter_any_order [OF w c s] f show ?thesis by simp
qed

section \<open>Summaries of a view without rows\<close>

lemma describe_numeric_no_rows:
  "describe_numeric [] = \<lparr>n_count = 0, n_mean = None, n_std = None, n_min = None, n_q25 = None,
               n_q50 = None, n_q75 = None, n_max = None\<rparr>"
  by (simp add: describe_numeric_def)

lemma categorical_summary_no_rows:
  assumes "object_cells (columns df) \<noteq> []"
    and "list_all (\<lambda>(n, c). col_length c = 0) (columns df)"
  shows "summarize df = Inl IndexError"
proof -
  have "list_all (\<lambda>(n, xs). present xs = []) (object_cells cs)"
    if "list_all (\<lambda>(n, c). col_length c = 0) cs" for cs
    using that by (induction cs rule: object_cells.induct) simp_all
  with assms show ?thesis
    by (simp add: summarize_def categorical_summary_def)
qed

text \<open>
  C4. The claim is that the summary of a frame without rows never raises. On the
  cleaned example frame, the filter \<^verbatim>\<open>Region = DAKAR\<close> with no selected user and the
  slider of \<^verbatim>\<open>MONTANT\<close> set to 15 to 30 leaves no row, and the summary of that view
  raises \<^verbatim>\<open>IndexError\<close> at \<^verbatim>\<open>mode().iloc[0]\<close>.
\<close>

theorem summarize_zero_rows_raises:
  "filtered_data raw_frame_cleaned ''Region'' ''DAKAR'' (LStr '''') example_slider
     = Inr \<lparr>index = [],
            columns = [(''Region'', ObjCol []), (''MONTANT'', FloatCol []),
                       (''TENURE'', IntCol []), (''REGULARITY'', IntCol []),
                       (''CHURN'', ObjCol [])]\<rparr>
   \<and> filtered_summary (LStr '''')
       \<lparr>index = [],
        columns = [(''Region'', ObjCol []), (''MONTANT'', FloatCol []),
                   (''TENURE'', IntCol []), (''REGULARITY'', IntCol []),
                   (''CHURN'', ObjCol [])]\<rparr>
     = Some (Inl IndexError)"
proof -
  have "filtered_data raw_frame_cleaned ''Region'' ''DAKAR'' (LStr '''') example_slider
     = Inr \<lparr>index = [],
            columns = [(''Region'', ObjCol []), (''MONTANT'', FloatCol []),
                       (''TENURE'', IntCol []), (''REGULARITY'', IntCol []),
                       (''CHURN'', ObjCol [])]\<rparr>"
    by code_simp
  moreover have "filtered_summary (LStr '''')
       \<lparr>index = [],
        columns = [(''Region'', ObjCol []), (''MONTANT'', FloatCol []),
                   (''TENURE'', IntCol []), (''REGULARITY'', IntCol []),
                   (''CHURN'', ObjCol [])]\<rparr>
     = Some (Inl IndexError)"
    by (simp add: filtered_summary_def summarize_def categorical_summary_def)
  ultimately show ?thesis by simp
qed

end
